theory Spec2Isabelle
  imports Main "HOL-Library.Word"
begin

section \<open>Values, errors and messages\<close>

text \<open>
  The node handles free-form JSON. A message is a Python dict from field names to
  values; the values are the JSON values, plus the members of the \<open>ItemType\<close>
  enumeration that \<open>check_message\<close> writes into the \<open>item_type\<close> field.
\<close>

datatype ItemType = Inline | Storage | IPFS

datatype pyval =
    PNone
  | PBool bool
  | PInt int
  | PStr string
  | PList "pyval list"
  | PDict "(string \<times> pyval) list"
  | PItemType ItemType

text \<open>
  Exceptions are values. \<open>OtherError\<close> stands for any exception raised below an
  adapter boundary (network, store, verifier) that the code does not name.
\<close>

datatype error =
    KeyError string
  | TypeError
  | ValueError
  | TimeoutError
  | InvalidContent
  | ContentCurrentlyUnavailable
  | OtherError string

type_synonym message = "string \<rightharpoonup> pyval"

text \<open>\<open>message[k]\<close>: raises \<open>KeyError\<close> when the key is absent.\<close>

definition subscript :: "message \<Rightarrow> string \<Rightarrow> error + pyval" where
  "subscript m k = (case m k of None \<Rightarrow> Inl (KeyError k) | Some v \<Rightarrow> Inr v)"

text \<open>\<open>message.get(k, None)\<close>.\<close>

definition get_or_none :: "message \<Rightarrow> string \<Rightarrow> pyval" where
  "get_or_none m k = (case m k of None \<Rightarrow> PNone | Some v \<Rightarrow> v)"

text \<open>\<open>isinstance(v, str)\<close>.\<close>

fun isinstance_str :: "pyval \<Rightarrow> bool" where
  "isinstance_str (PStr s) = True"
| "isinstance_str v = False"

text \<open>\<open>len(v)\<close>: defined on strings, lists and dicts, a \<open>TypeError\<close> otherwise.\<close>

fun py_len :: "pyval \<Rightarrow> error + nat" where
  "py_len (PStr s) = Inr (length s)"
| "py_len (PList xs) = Inr (length xs)"
| "py_len (PDict kvs) = Inr (length kvs)"
| "py_len v = Inl TypeError"

section \<open>Message admission (network.py)\<close>

definition MAX_INLINE_SIZE :: nat where
  "MAX_INLINE_SIZE = 200000"

definition INCOMING_MESSAGE_AUTHORIZED_FIELDS :: "string list" where
  "INCOMING_MESSAGE_AUTHORIZED_FIELDS =
     [''item_hash'', ''item_content'', ''item_type'', ''chain'', ''channel'',
      ''sender'', ''type'', ''time'', ''signature'']"

text \<open>
  The collaborators of \<open>check_message\<close> that live outside this module are parameters:
  \<open>get_sha256\<close> (aleph.utils), \<open>ItemType.from_hash\<close> (aleph.types; it raises
  \<open>ValueError\<close> on a hash it cannot classify) and the registry of chain verifiers
  \<open>VERIFIER_REGISTER\<close> (aleph.chains.register). Each may raise.
\<close>

record net_env =
  get_sha256 :: "pyval \<Rightarrow> error + string"
  from_hash :: "pyval \<Rightarrow> error + ItemType"
  VERIFIER_REGISTER :: "string \<rightharpoonup> (message \<Rightarrow> error + bool)"

text \<open>
  Lines 82 to 108: the inline-content branch and the classification branch. The result is
  \<open>Inl e\<close> for a raised exception, \<open>Inr None\<close> for \<open>return None\<close>, and
  \<open>Inr (Some m)\<close> when control falls through with the message updated to \<open>m\<close>.
\<close>

definition check_content :: "net_env \<Rightarrow> message \<Rightarrow> bool \<Rightarrow> error + message option" where
  "check_content env message trusted =
     (if get_or_none message ''item_content'' \<noteq> PNone then
        (case py_len (get_or_none message ''item_content'') of
           Inl e \<Rightarrow> Inl e
         | Inr n \<Rightarrow>
             (if n > MAX_INLINE_SIZE then Inr None
              else if (case message ''hash_type'' of
                         None \<Rightarrow> True
                       | Some v \<Rightarrow> v = PStr ''sha256'') then
                (if \<not> trusted then
                   (case get_sha256 env (get_or_none message ''item_content'') of
                      Inl e \<Rightarrow> Inl e
                    | Inr item_hash \<Rightarrow>
                        (case subscript message ''item_hash'' of
                           Inl e \<Rightarrow> Inl e
                         | Inr ih \<Rightarrow>
                             (if ih \<noteq> PStr item_hash then Inr None
                              else Inr (Some (message(''item_type'' \<mapsto> PItemType Inline))))))
                 else Inr (Some (message(''item_type'' \<mapsto> PItemType Inline))))
              else Inr None))
      else
        (case subscript message ''item_hash'' of
           Inl e \<Rightarrow> Inl e
         | Inr ih \<Rightarrow>
             (case from_hash env ih of
                Inr t \<Rightarrow> Inr (Some (message(''item_type'' \<mapsto> PItemType t)))
              | Inl ValueError \<Rightarrow> Inr (Some message)
              | Inl e \<Rightarrow> Inl e)))"

text \<open>
  Lines 110 to 129: a trusted message is returned as it is; otherwise it is projected onto
  the authorized fields and handed to the verifier registered for its chain. A verifier
  that returns a falsy value lets the function end without a \<open>return\<close>, which is
  \<open>None\<close>; only \<open>ValueError\<close> is caught.
\<close>

definition check_signature :: "net_env \<Rightarrow> message \<Rightarrow> bool \<Rightarrow> error + message option" where
  "check_signature env message trusted =
     (if trusted then Inr (Some message)
      else
        (let message' = message |` set INCOMING_MESSAGE_AUTHORIZED_FIELDS in
         case message' ''chain'' of
           Some (PStr chain) \<Rightarrow>
             (case VERIFIER_REGISTER env chain of
                None \<Rightarrow> Inr None
              | Some signer \<Rightarrow>
                  (case signer message' of
                     Inr ok \<Rightarrow> if ok then Inr (Some message') else Inr None
                   | Inl ValueError \<Rightarrow> Inr None
                   | Inl e \<Rightarrow> Inl e))
         | _ \<Rightarrow> Inr None))"

text \<open>
  \<open>check_message(message, from_chain, from_network, trusted)\<close>. Lines 61 to 80 are the
  type guards, in the order of the source: \<open>item_hash\<close>, \<open>chain\<close>, \<open>channel\<close>,
  \<open>sender\<close>, \<open>signature\<close>. The four mandatory fields are read with
  \<open>message[...]\<close>, the optional \<open>channel\<close> with \<open>message.get\<close>.
\<close>

definition check_message ::
  "net_env \<Rightarrow> message \<Rightarrow> bool \<Rightarrow> bool \<Rightarrow> bool \<Rightarrow> error + message option" where
  "check_message env message from_chain from_network trusted =
     (case subscript message ''item_hash'' of
        Inl e \<Rightarrow> Inl e
      | Inr ih \<Rightarrow>
     (if \<not> isinstance_str ih then Inr None else
     (case subscript message ''chain'' of
        Inl e \<Rightarrow> Inl e
      | Inr ch \<Rightarrow>
     (if \<not> isinstance_str ch then Inr None else
     (if get_or_none message ''channel'' \<noteq> PNone
         \<and> \<not> isinstance_str (get_or_none message ''channel'') then Inr None else
     (case subscript message ''sender'' of
        Inl e \<Rightarrow> Inl e
      | Inr sd \<Rightarrow>
     (if \<not> isinstance_str sd then Inr None else
     (case subscript message ''signature'' of
        Inl e \<Rightarrow> Inl e
      | Inr sg \<Rightarrow>
     (if \<not> isinstance_str sg then Inr None else
     (case check_content env message trusted of
        Inl e \<Rightarrow> Inl e
      | Inr None \<Rightarrow> Inr None
      | Inr (Some message') \<Rightarrow> check_signature env message' trusted))))))))))"

text \<open>
  What a type guard finds in a field: a string, or a value that is not a string. The
  guard on \<open>channel\<close> lets an absent field, a null and a string pass.
\<close>

definition is_str_field :: "message \<Rightarrow> string \<Rightarrow> bool" where
  "is_str_field m k = (case m k of None \<Rightarrow> False | Some v \<Rightarrow> isinstance_str v)"

definition is_non_str_field :: "message \<Rightarrow> string \<Rightarrow> bool" where
  "is_non_str_field m k = (case m k of None \<Rightarrow> False | Some v \<Rightarrow> \<not> isinstance_str v)"

definition channel_passes :: "message \<Rightarrow> bool" where
  "channel_passes m =
     (case m ''channel'' of None \<Rightarrow> True | Some v \<Rightarrow> v = PNone \<or> isinstance_str v)"

section \<open>Content resolver (storage.py)\<close>

type_synonym bytes = "8 word list"

datatype ContentSource = DB | P2P | IPFS_src | INLINE

record RawContent =
  hash :: string
  source :: "ContentSource option"
  value_bytes :: bytes

text \<open>
  The local byte store (aleph.services.filestore) is not part of this module; its state
  is a map from hashes to bytes.
\<close>

type_synonym store = "string \<rightharpoonup> bytes"

text \<open>
  Modelled from the spec: \<open>get(H)\<close> of the local byte store gives the bytes stored
  under \<open>H\<close> or nothing, and never raises for a missing key.
\<close>

definition get_value :: "store \<Rightarrow> string \<Rightarrow> bytes option" where
  "get_value st h = st h"

text \<open>
  Every call that leaves the module is recorded, in order, so that a theorem can say
  which layers a resolve has touched. Every call of \<open>verify_content_hash\<close> is recorded
  too, with its arguments, so that a theorem can say what was verified and when.
\<close>

datatype call =
    GetValue string
  | StreamerRequestHash string
  | HttpRequestHash string int
  | GetIpfsContent string int int
  | AddIpfsBytes bytes nat
  | SetValue string bytes
  | VerifyContentHash bytes ItemType string

text \<open>
  The configuration and the adapters are parameters: \<open>ipfs_enabled\<close> and
  \<open>p2p_clients\<close> are the two configuration values the module reads; the overlay
  streamer, the HTTP fallback, the distributed-network client and \<open>get_sha256\<close> on bytes
  are functions that may raise. \<open>set_value_error h c\<close> is the exception, when there
  is one, that writing \<open>c\<close> under \<open>h\<close> to the local store raises.
\<close>

record storage_env =
  ipfs_enabled :: bool
  p2p_clients :: "string list"
  streamer_request_hash :: "string \<Rightarrow> error + bytes option"
  p2p_http_request_hash :: "string \<Rightarrow> int \<Rightarrow> error + bytes option"
  get_ipfs_content :: "string \<Rightarrow> int \<Rightarrow> int \<Rightarrow> error + bytes option"
  add_ipfs_bytes :: "bytes \<Rightarrow> nat \<Rightarrow> error + string"
  get_sha256_bytes :: "bytes \<Rightarrow> string"
  set_value_error :: "string \<Rightarrow> bytes \<Rightarrow> error option"

text \<open>
  Modelled from the spec: \<open>set(H, bytes)\<close> of the local byte store is durable on
  return, so that a later \<open>get(H)\<close> gives these bytes; a write that raises leaves the
  store as it was.
\<close>

definition set_value :: "storage_env \<Rightarrow> store \<Rightarrow> string \<Rightarrow> bytes \<Rightarrow> error + store" where
  "set_value env st h c =
     (case set_value_error env h c of
        Some e \<Rightarrow> Inl e
      | None \<Rightarrow> Inr (st(h \<mapsto> c)))"

text \<open>
  \<open>compute_content_hash_ipfs\<close>: CID version 1 for an expected hash of 58 characters or
  more, version 0 otherwise; a timeout of the daemon is caught and gives \<open>None\<close>.
\<close>

definition compute_content_hash_ipfs ::
  "storage_env \<Rightarrow> bytes \<Rightarrow> string \<Rightarrow> (error + string option) \<times> call list" where
  "compute_content_hash_ipfs env content expected_hash =
     (let cid_version = (if length expected_hash \<ge> 58 then 1 else 0) in
      (case add_ipfs_bytes env content cid_version of
         Inr computed_hash \<Rightarrow> Inr (Some computed_hash)
       | Inl TimeoutError \<Rightarrow> Inr None
       | Inl e \<Rightarrow> Inl e,
       [AddIpfsBytes content cid_version]))"

definition compute_content_hash_sha256 ::
  "storage_env \<Rightarrow> bytes \<Rightarrow> string \<Rightarrow> (error + string option) \<times> call list" where
  "compute_content_hash_sha256 env content expected_hash =
     (Inr (Some (get_sha256_bytes env content)), [])"

definition verify_content_hash ::
  "storage_env \<Rightarrow> bytes \<Rightarrow> ItemType \<Rightarrow> string \<Rightarrow> (error + unit) \<times> call list" where
  "verify_content_hash env content engine expected_hash =
     (if (engine = IPFS \<and> ipfs_enabled env) \<or> engine = Storage then
        (case (if engine = IPFS \<and> ipfs_enabled env
               then compute_content_hash_ipfs env content expected_hash
               else compute_content_hash_sha256 env content expected_hash) of
           (Inl e, t) \<Rightarrow> (Inl e, VerifyContentHash content engine expected_hash # t)
         | (Inr None, t) \<Rightarrow>
             (Inl ContentCurrentlyUnavailable,
              VerifyContentHash content engine expected_hash # t)
         | (Inr (Some computed_hash), t) \<Rightarrow>
             (if computed_hash \<noteq> expected_hash
              then (Inl InvalidContent, VerifyContentHash content engine expected_hash # t)
              else (Inr (), VerifyContentHash content engine expected_hash # t)))
      else (Inl ValueError, [VerifyContentHash content engine expected_hash]))"

text \<open>
  \<open>fetch_content_from_network\<close>: the binary streamer when the \<open>protocol\<close> client is
  enabled, then HTTP when nothing came and the \<open>http\<close> client is enabled; bytes that
  came are verified, and a failed verification raises.
\<close>

definition fetch_content_from_network ::
  "storage_env \<Rightarrow> string \<Rightarrow> ItemType \<Rightarrow> int \<Rightarrow> (error + bytes option) \<times> call list" where
  "fetch_content_from_network env content_hash engine timeout =
     (case (if ''protocol'' \<in> set (p2p_clients env)
            then (streamer_request_hash env content_hash, [StreamerRequestHash content_hash])
            else (Inr None, [])) of
        (Inl e, t1) \<Rightarrow> (Inl e, t1)
      | (Inr content1, t1) \<Rightarrow>
          (case (if content1 = None \<and> ''http'' \<in> set (p2p_clients env)
                 then (p2p_http_request_hash env content_hash timeout,
                       t1 @ [HttpRequestHash content_hash timeout])
                 else (Inr content1, t1)) of
             (Inl e, t2) \<Rightarrow> (Inl e, t2)
           | (Inr None, t2) \<Rightarrow> (Inr None, t2)
           | (Inr (Some content), t2) \<Rightarrow>
               (case verify_content_hash env content engine content_hash of
                  (Inl e, t3) \<Rightarrow> (Inl e, t2 @ t3)
                | (Inr u, t3) \<Rightarrow> (Inr (Some content), t2 @ t3))))"

text \<open>
  Lines 176 to 197 of \<open>get_hash_content\<close>: the three sources in turn. The result is the
  content with the value of \<open>source\<close> at that point, or the exception raised.
\<close>

definition resolve_content ::
  "storage_env \<Rightarrow> store \<Rightarrow> string \<Rightarrow> ItemType \<Rightarrow> int \<Rightarrow> int \<Rightarrow> bool \<Rightarrow> bool
     \<Rightarrow> (error + bytes \<times> ContentSource option) \<times> call list" where
  "resolve_content env st content_hash engine timeout tries use_network use_ipfs =
     (let content0 = get_value st content_hash;
          source0 = (if content0 \<noteq> None then Some DB else None);
          t0 = [GetValue content_hash]
      in
      case (if content0 = None \<and> use_network
            then (case fetch_content_from_network env content_hash engine timeout of
                    (r, t) \<Rightarrow> (r, Some P2P, t0 @ t))
            else (Inr content0, source0, t0)) of
        (Inl e, source1, t1) \<Rightarrow> (Inl e, t1)
      | (Inr content1, source1, t1) \<Rightarrow>
          (case (if content1 = None \<and> ipfs_enabled env \<and> engine = IPFS \<and> use_ipfs
                 then (get_ipfs_content env content_hash timeout tries, Some IPFS_src,
                       t1 @ [GetIpfsContent content_hash timeout tries])
                 else (Inr content1, source1, t1)) of
             (Inl e, source2, t2) \<Rightarrow> (Inl e, t2)
           | (Inr None, source2, t2) \<Rightarrow> (Inl ContentCurrentlyUnavailable, t2)
           | (Inr (Some content), source2, t2) \<Rightarrow> (Inr (content, source2), t2)))"

text \<open>
  \<open>get_hash_content\<close>: resolve, then lines 199 to 206, the write to the local store when
  \<open>store_value\<close> holds and the source is not the store itself. The call to
  \<open>set_value\<close> stands in no \<open>try\<close> block: what it raises leaves the function.
\<close>

definition get_hash_content ::
  "storage_env \<Rightarrow> store \<Rightarrow> string \<Rightarrow> ItemType \<Rightarrow> int \<Rightarrow> int \<Rightarrow> bool \<Rightarrow> bool \<Rightarrow> bool
     \<Rightarrow> (error + RawContent) \<times> store \<times> call list" where
  "get_hash_content env st content_hash engine timeout tries use_network use_ipfs store_value =
     (case resolve_content env st content_hash engine timeout tries use_network use_ipfs of
        (Inl e, t) \<Rightarrow> (Inl e, st, t)
      | (Inr (content, src), t) \<Rightarrow>
          (if store_value \<and> src \<noteq> Some DB then
             (case set_value env st content_hash content of
                Inl e \<Rightarrow> (Inl e, st, t @ [SetValue content_hash content])
              | Inr st' \<Rightarrow>
                  (Inr \<lparr>hash = content_hash, source = src, value_bytes = content\<rparr>, st',
                   t @ [SetValue content_hash content]))
           else (Inr \<lparr>hash = content_hash, source = src, value_bytes = content\<rparr>, st, t)))"

section \<open>Pending work pipeline (jobs.py)\<close>

subsection \<open>Records and collections\<close>

text \<open>
  A pending-message record is \<open>{_id, message, source}\<close>, where \<open>source\<close> is a dict read
  with \<open>.get\<close>, so each of its entries may be absent. A pending-tx record is
  \<open>{_id, content, context}\<close>, where \<open>context\<close> is read with \<open>[...]\<close>. A collection
  is the list of its documents, each paired with its \<open>_id\<close>.
\<close>

record pending_source =
  src_chain_name :: "string option"
  src_tx_hash :: "string option"
  src_height :: "int option"
  src_check_message :: "bool option"

record pending_message =
  pm_message :: message
  pm_source :: pending_source

record tx_context =
  ctx_chain_name :: string
  ctx_tx_hash :: string
  ctx_height :: int
  ctx_time :: pyval

record pending_tx =
  tx_content :: pyval
  tx_ctx :: tx_context

datatype 'd write_op = InsertOne 'd | DeleteOne nat

type_synonym 'd collection = "(nat \<times> 'd) list"

text \<open>
  Modelled from the spec: the persistent queues (aleph.model.pending over MongoDB, not
  part of this module) accept bulk writes of an ordered list of insert and delete
  operations keyed by record id. \<open>DeleteOne {'_id': i}\<close> removes the one document with
  that \<open>_id\<close>, when there is one.
\<close>

fun delete_one :: "nat \<Rightarrow> 'd collection \<Rightarrow> 'd collection" where
  "delete_one i [] = []"
| "delete_one i (x # xs) = (if fst x = i then xs else x # delete_one i xs)"

text \<open>
  Modelled from the spec: \<open>InsertOne\<close> stores the document under an \<open>_id\<close> that no
  document of the collection has.
\<close>

definition fresh_id :: "'d collection \<Rightarrow> nat" where
  "fresh_id coll = Suc (fold max (map fst coll) 0)"

fun apply_write_op :: "'d collection \<Rightarrow> 'd write_op \<Rightarrow> 'd collection" where
  "apply_write_op coll (InsertOne d) = coll @ [(fresh_id coll, d)]"
| "apply_write_op coll (DeleteOne i) = delete_one i coll"

text \<open>
  Modelled from the spec: a bulk write applies its operations in the order of the list.
\<close>

definition bulk_write :: "'d collection \<Rightarrow> 'd write_op list \<Rightarrow> 'd collection" where
  "bulk_write coll ops = foldl apply_write_op coll ops"

text \<open>
  Modelled from the spec: the queues expose ordered iteration. The list is kept in the
  order in which \<open>find().sort([('time', 1)])\<close> yields the documents, so that
  \<open>limit(n)\<close> takes the first \<open>n\<close> of them.
\<close>

definition find_limit :: "nat \<Rightarrow> 'd collection \<Rightarrow> 'd collection" where
  "find_limit n coll = take n coll"

subsection \<open>The pending-message worker\<close>

text \<open>
  \<open>incoming\<close> (aleph.chains.common) is a parameter. It receives the keyword arguments
  below and the list \<open>seen_ids[chain_name]\<close>, which it may extend in place; it returns
  whether its result is \<open>True\<close>, or raises. Whatever else it does is outside this module.
\<close>

record incoming_args =
  arg_message :: message
  arg_chain_name :: "string option"
  arg_tx_hash :: "string option"
  arg_height :: "int option"
  arg_check_message :: bool
  arg_retrying :: bool

type_synonym incoming_fn =
  "incoming_args \<Rightarrow> string list \<Rightarrow> (error + bool) \<times> string list"

type_synonym seen_ids = "string \<rightharpoonup> string list"

definition initial_seen_ids :: seen_ids where
  "initial_seen_ids = [''NULS'' \<mapsto> [], ''ETH'' \<mapsto> [], ''BNB'' \<mapsto> []]"

text \<open>
  \<open>seen_ids[pending['source'].get('chain_name')]\<close>: a \<open>KeyError\<close> when the key, which
  is \<open>None\<close> for a source without chain name, is not in the table.
\<close>

definition seen_ids_subscript :: "seen_ids \<Rightarrow> string option \<Rightarrow> error + string list" where
  "seen_ids_subscript seen key =
     (case key of
        None \<Rightarrow> Inl (KeyError ''None'')
      | Some c \<Rightarrow> (case seen c of None \<Rightarrow> Inl (KeyError c) | Some ids \<Rightarrow> Inr ids))"

text \<open>
  \<open>handle_pending_message\<close>: the arguments of \<open>incoming\<close> are evaluated first, so a
  failing table lookup raises before \<open>incoming\<close> is called. A result that is \<open>True\<close>
  appends the delete of the record to the shared action list.
\<close>

definition handle_pending_message ::
  "incoming_fn \<Rightarrow> nat \<times> pending_message \<Rightarrow> seen_ids \<Rightarrow> pending_message write_op list
     \<Rightarrow> (error + unit) \<times> seen_ids \<times> pending_message write_op list" where
  "handle_pending_message incoming pending seen actions_list =
     (case seen_ids_subscript seen (src_chain_name (pm_source (snd pending))) of
        Inl e \<Rightarrow> (Inl e, seen, actions_list)
      | Inr ids \<Rightarrow>
          (let seen_upd = (\<lambda>ids'. case src_chain_name (pm_source (snd pending)) of
                                     None \<Rightarrow> seen
                                   | Some c \<Rightarrow> seen(c \<mapsto> ids'))
           in
           case incoming
                  \<lparr>arg_message = pm_message (snd pending),
                   arg_chain_name = src_chain_name (pm_source (snd pending)),
                   arg_tx_hash = src_tx_hash (pm_source (snd pending)),
                   arg_height = src_height (pm_source (snd pending)),
                   arg_check_message =
                     (case src_check_message (pm_source (snd pending)) of
                        None \<Rightarrow> True
                      | Some b \<Rightarrow> b),
                   arg_retrying = True\<rparr> ids of
             (Inl e, ids') \<Rightarrow> (Inl e, seen_upd ids', actions_list)
           | (Inr result, ids') \<Rightarrow>
               (Inr (), seen_upd ids',
                if result then actions_list @ [DeleteOne (fst pending)] else actions_list)))"

text \<open>
  \<open>asyncio.gather(*tasks)\<close> inside \<open>try ... except Exception\<close>: the tasks of one batch
  run together on one thread. The model runs them one after the other in launch order,
  each to its end, and drops what a task raises, as the \<open>except\<close> clause does.
\<close>

fun gather_pending_messages ::
  "incoming_fn \<Rightarrow> (nat \<times> pending_message) list \<Rightarrow> seen_ids \<Rightarrow> pending_message write_op list
     \<Rightarrow> seen_ids \<times> pending_message write_op list" where
  "gather_pending_messages incoming [] seen actions_list = (seen, actions_list)"
| "gather_pending_messages incoming (p # ps) seen actions_list =
     (case handle_pending_message incoming p seen actions_list of
        (r, seen', actions_list') \<Rightarrow> gather_pending_messages incoming ps seen' actions_list')"

text \<open>
  The state of a sweep: the table of seen ids, the action list, the collection, and the
  batches handed to \<open>gather\<close> so far (each one is the set of tasks in flight together).
\<close>

record 'd sweep =
  sw_actions :: "'d write_op list"
  sw_coll :: "'d collection"
  sw_gathered :: "(nat \<times> 'd) list list"

definition join_pending_message_tasks ::
  "incoming_fn \<Rightarrow> (nat \<times> pending_message) list \<Rightarrow> seen_ids \<times> pending_message sweep
     \<Rightarrow> seen_ids \<times> pending_message sweep" where
  "join_pending_message_tasks incoming tasks st =
     (case gather_pending_messages incoming tasks (fst st) (sw_actions (snd st)) of
        (seen', actions') \<Rightarrow>
          (seen',
           \<lparr>sw_actions = [],
            sw_coll = (if length actions' \<noteq> 0 then bulk_write (sw_coll (snd st)) actions'
                       else sw_coll (snd st)),
            sw_gathered = sw_gathered (snd st) @ [tasks]\<rparr>))"

text \<open>
  The loop of \<open>retry_messages_job\<close>: \<open>i\<close> counts the records since the last drain and
  \<open>tasks\<close> holds their handlers; the drain comes when \<open>i > 200\<close> after the increment.
\<close>

fun retry_messages_loop ::
  "incoming_fn \<Rightarrow> (nat \<times> pending_message) list \<Rightarrow> nat \<Rightarrow> (nat \<times> pending_message) list
     \<Rightarrow> seen_ids \<times> pending_message sweep \<Rightarrow> seen_ids \<times> pending_message sweep" where
  "retry_messages_loop incoming [] i tasks st = join_pending_message_tasks incoming tasks st"
| "retry_messages_loop incoming (pending # rest) i tasks st =
     (if i + 1 > 200
      then retry_messages_loop incoming rest 0 []
             (join_pending_message_tasks incoming (tasks @ [pending]) st)
      else retry_messages_loop incoming rest (i + 1) (tasks @ [pending]) st)"

definition retry_messages_job ::
  "incoming_fn \<Rightarrow> pending_message collection \<Rightarrow> pending_message sweep" where
  "retry_messages_job incoming coll =
     snd (retry_messages_loop incoming (find_limit 1000 coll) 0 []
            (initial_seen_ids, \<lparr>sw_actions = [], sw_coll = coll, sw_gathered = []\<rparr>))"

text \<open>
  \<open>retry_messages_task\<close> runs sweep after sweep for ever. The model runs one sweep for
  each element of a list, the element being what \<open>incoming\<close> does during that sweep.
\<close>

fun retry_messages_task ::
  "incoming_fn list \<Rightarrow> pending_message collection \<Rightarrow> pending_message collection" where
  "retry_messages_task [] coll = coll"
| "retry_messages_task (incoming # later) coll =
     retry_messages_task later (sw_coll (retry_messages_job incoming coll))"

subsection \<open>The pending-tx worker\<close>

text \<open>
  \<open>get_chaindata_messages\<close> (aleph.chains.common) is a parameter: it returns a list of
  messages, \<open>None\<close>, or some other value that is neither, or raises.
\<close>

datatype chaindata_result = MessageList "message list" | NoMessages | OtherValue

type_synonym chaindata_fn = "pyval \<Rightarrow> tx_context \<Rightarrow> error + chaindata_result"

text \<open>
  \<open>handle_pending_tx\<close>: one insert for each extracted message, written at once to the
  pending-message collection when there is one at least; then the delete of the pending
  tx is appended to the shared action list unless the extractor returned \<open>None\<close>.
\<close>

definition message_action :: "tx_context \<Rightarrow> message \<Rightarrow> pending_message write_op" where
  "message_action ctx message =
     InsertOne
       \<lparr>pm_message = message(''time'' \<mapsto> ctx_time ctx),
        pm_source = \<lparr>src_chain_name = Some (ctx_chain_name ctx),
                     src_tx_hash = Some (ctx_tx_hash ctx),
                     src_height = Some (ctx_height ctx),
                     src_check_message = Some True\<rparr>\<rparr>"

definition handle_pending_tx ::
  "chaindata_fn \<Rightarrow> nat \<times> pending_tx \<Rightarrow> pending_message collection \<Rightarrow> pending_tx write_op list
     \<Rightarrow> (error + unit) \<times> pending_message collection \<times> pending_tx write_op list" where
  "handle_pending_tx get_chaindata_messages pending pm_coll actions_list =
     (case get_chaindata_messages (tx_content (snd pending)) (tx_ctx (snd pending)) of
        Inl e \<Rightarrow> (Inl e, pm_coll, actions_list)
      | Inr messages \<Rightarrow>
          (let pm_coll' =
                 (case messages of
                    MessageList ms \<Rightarrow>
                      (let message_actions = map (message_action (tx_ctx (snd pending))) ms
                       in if message_actions \<noteq> [] then bulk_write pm_coll message_actions
                          else pm_coll)
                  | _ \<Rightarrow> pm_coll)
           in (Inr (), pm_coll',
               if messages \<noteq> NoMessages then actions_list @ [DeleteOne (fst pending)]
               else actions_list)))"

fun gather_pending_txs ::
  "chaindata_fn \<Rightarrow> (nat \<times> pending_tx) list \<Rightarrow> pending_message collection
     \<Rightarrow> pending_tx write_op list \<Rightarrow> pending_message collection \<times> pending_tx write_op list" where
  "gather_pending_txs gcm [] pm_coll actions_list = (pm_coll, actions_list)"
| "gather_pending_txs gcm (p # ps) pm_coll actions_list =
     (case handle_pending_tx gcm p pm_coll actions_list of
        (r, pm_coll', actions_list') \<Rightarrow> gather_pending_txs gcm ps pm_coll' actions_list')"

definition join_pending_txs_tasks ::
  "chaindata_fn \<Rightarrow> (nat \<times> pending_tx) list \<Rightarrow> pending_message collection \<times> pending_tx sweep
     \<Rightarrow> pending_message collection \<times> pending_tx sweep" where
  "join_pending_txs_tasks gcm tasks st =
     (case gather_pending_txs gcm tasks (fst st) (sw_actions (snd st)) of
        (pm_coll', actions') \<Rightarrow>
          (pm_coll',
           \<lparr>sw_actions = [],
            sw_coll = (if length actions' \<noteq> 0 then bulk_write (sw_coll (snd st)) actions'
                       else sw_coll (snd st)),
            sw_gathered = sw_gathered (snd st) @ [tasks]\<rparr>))"

fun handle_txs_loop ::
  "chaindata_fn \<Rightarrow> (nat \<times> pending_tx) list \<Rightarrow> nat \<Rightarrow> (nat \<times> pending_tx) list
     \<Rightarrow> pending_message collection \<times> pending_tx sweep
     \<Rightarrow> pending_message collection \<times> pending_tx sweep" where
  "handle_txs_loop gcm [] i tasks st = join_pending_txs_tasks gcm tasks st"
| "handle_txs_loop gcm (pending # rest) i tasks st =
     (if i + 1 > 100
      then handle_txs_loop gcm rest 0 [] (join_pending_txs_tasks gcm (tasks @ [pending]) st)
      else handle_txs_loop gcm rest (i + 1) (tasks @ [pending]) st)"

definition handle_txs_job ::
  "chaindata_fn \<Rightarrow> pending_message collection \<Rightarrow> pending_tx collection
     \<Rightarrow> pending_message collection \<times> pending_tx sweep" where
  "handle_txs_job gcm pm_coll coll =
     handle_txs_loop gcm (find_limit 1000 coll) 0 []
       (pm_coll, \<lparr>sw_actions = [], sw_coll = coll, sw_gathered = []\<rparr>)"

text \<open>The largest number of handler tasks that one \<open>gather\<close> of a sweep ran together.\<close>

definition max_in_flight :: "'a list list \<Rightarrow> nat" where
  "max_in_flight batches = fold max (map length batches) 0"

section \<open>Batch sizes and example inputs\<close>

text \<open>
  The sizes of the batches that a sweep loop draining when \<open>i > k\<close> forms out of \<open>n\<close>
  records, started with counter \<open>i\<close> and \<open>t\<close> tasks waiting.
\<close>

fun batch_sizes :: "nat \<Rightarrow> nat \<Rightarrow> nat \<Rightarrow> nat \<Rightarrow> nat list" where
  "batch_sizes k 0 i t = [t]"
| "batch_sizes k (Suc n) i t =
     (if i + 1 > k then Suc t # batch_sizes k n 0 0 else batch_sizes k n (i + 1) (Suc t))"

text \<open>
  What a sweep of the pending-message worker keeps true of a record \<open>p\<close> that it
  cannot handle: the table of seen ids has its three keys, every action waiting is the
  delete of another record, \<open>p\<close> is in the collection, and the ids are distinct.
\<close>

definition sweep_ok :: "nat \<times> pending_message \<Rightarrow> seen_ids \<times> pending_message sweep \<Rightarrow> bool" where
  "sweep_ok p st \<longleftrightarrow>
     dom (fst st) = {''NULS'', ''ETH'', ''BNB''}
     \<and> set (sw_actions (snd st)) \<subseteq> DeleteOne ` (- {fst p})
     \<and> p \<in> set (sw_coll (snd st))
     \<and> distinct (map fst (sw_coll (snd st)))"

text \<open>
  Concrete inputs on which the theorems below are run. The hash of the example
  environments is a stand-in (a prefix put before the content): the theorems hold for
  every hash function, and the examples only need one.
\<close>

definition demo_net_env :: net_env where
  "demo_net_env =
     \<lparr>get_sha256 = (\<lambda>v. case v of PStr s \<Rightarrow> Inr (''h:'' @ s) | _ \<Rightarrow> Inl TypeError),
      from_hash = (\<lambda>v. Inl ValueError),
      VERIFIER_REGISTER = [''X'' \<mapsto> (\<lambda>m. Inr True)]\<rparr>"

definition demo_message :: message where
  "demo_message =
     [''item_hash'' \<mapsto> PStr ''h:hi'', ''item_content'' \<mapsto> PStr ''hi'',
      ''chain'' \<mapsto> PStr ''X'', ''sender'' \<mapsto> PStr ''s'', ''signature'' \<mapsto> PStr ''ok'',
      ''type'' \<mapsto> PStr ''POST'', ''time'' \<mapsto> PInt 1, ''confirmed'' \<mapsto> PBool True]"

definition demo_oversize_content :: string where
  "demo_oversize_content = replicate 200001 CHR ''a''"

definition demo_storage_env :: storage_env where
  "demo_storage_env =
     \<lparr>ipfs_enabled = True,
      p2p_clients = [''protocol'', ''http''],
      streamer_request_hash = (\<lambda>h. Inr None),
      p2p_http_request_hash = (\<lambda>h t. Inr None),
      get_ipfs_content = (\<lambda>h t n. Inr (Some [1, 2, 3])),
      add_ipfs_bytes = (\<lambda>c v. Inr ''QmOther''),
      get_sha256_bytes = (\<lambda>c. ''digest''),
      set_value_error = (\<lambda>h c. None)\<rparr>"

definition demo_p2p_env :: storage_env where
  "demo_p2p_env = demo_storage_env\<lparr>streamer_request_hash := (\<lambda>h. Inr (Some [1, 2, 3]))\<rparr>"

definition demo_failing_store_env :: storage_env where
  "demo_failing_store_env =
     demo_p2p_env\<lparr>set_value_error := (\<lambda>h c. Some (OtherError ''disk full''))\<rparr>"

definition demo_silent_env :: storage_env where
  "demo_silent_env = demo_storage_env\<lparr>get_ipfs_content := (\<lambda>h t n. Inr None)\<rparr>"

definition demo_incoming :: incoming_fn where
  "demo_incoming args ids = (Inr True, ids)"

definition demo_pending_message :: pending_message where
  "demo_pending_message =
     \<lparr>pm_message = Map.empty,
      pm_source = \<lparr>src_chain_name = Some ''ETH'', src_tx_hash = None, src_height = None,
                   src_check_message = None\<rparr>\<rparr>"

definition demo_unknown_chain_message :: pending_message where
  "demo_unknown_chain_message =
     \<lparr>pm_message = Map.empty,
      pm_source = \<lparr>src_chain_name = Some ''XTZ'', src_tx_hash = None, src_height = None,
                   src_check_message = None\<rparr>\<rparr>"

definition demo_pending_messages :: "pending_message collection" where
  "demo_pending_messages = map (\<lambda>i. (i, demo_pending_message)) [0..<1000]"

definition demo_tx_context :: tx_context where
  "demo_tx_context =
     \<lparr>ctx_chain_name = ''X'', ctx_tx_hash = ''t'', ctx_height = 7, ctx_time = PInt 100\<rparr>"

definition demo_pending_tx :: pending_tx where
  "demo_pending_tx = \<lparr>tx_content = PNone, tx_ctx = demo_tx_context\<rparr>"

definition demo_pending_txs :: "pending_tx collection" where
  "demo_pending_txs = map (\<lambda>i. (i, demo_pending_tx)) [0..<1000]"

definition demo_chaindata :: chaindata_fn where
  "demo_chaindata content ctx =
     Inr (MessageList [[''a'' \<mapsto> PInt 1], [''a'' \<mapsto> PInt 2]])"


section \<open>Message admission: what the validator returns\<close>

subsection \<open>Auxiliary facts\<close>

lemma guards_pass:
  assumes "m ''item_hash'' = Some (PStr ih)" and "m ''chain'' = Some (PStr ch)"
    and "m ''sender'' = Some (PStr sd)" and "m ''signature'' = Some (PStr sg)"
    and "m ''channel'' = None"
  shows "check_message env m fc fn tr =
         (case check_content env m tr of
            Inl e \<Rightarrow> Inl e
          | Inr None \<Rightarrow> Inr None
          | Inr (Some m') \<Rightarrow> check_signature env m' tr)"
  using assms by (simp add: check_message_def subscript_def get_or_none_def)

lemma check_content_item_type:
  assumes "m ''item_content'' = Some c" and "c \<noteq> PNone"
    and "check_content env m tr = Inr (Some m')"
  shows "m' = m(''item_type'' \<mapsto> PItemType Inline)"
  using assms
  by (auto simp: check_content_def get_or_none_def split: sum.splits if_splits option.splits)

lemma check_content_changes_item_type_only:
  assumes "check_content env m tr = Inr (Some m')"
  shows "m' = m \<or> (\<exists>t. m' = m(''item_type'' \<mapsto> t))"
  using assms
  by (auto simp: check_content_def split: sum.splits if_splits option.splits error.splits)

lemma check_signature_untrusted:
  assumes "check_signature env m False = Inr (Some r)"
  shows "r = m |` set INCOMING_MESSAGE_AUTHORIZED_FIELDS"
  using assms
  by (auto simp: check_signature_def Let_def
      split: option.splits pyval.splits sum.splits if_splits error.splits)

lemma check_message_result:
  assumes "check_message env m fc fn tr = Inr (Some r)"
  shows "\<exists>m'. check_content env m tr = Inr (Some m') \<and> check_signature env m' tr = Inr (Some r)"
  using assms
  by (auto simp: check_message_def split: sum.splits if_splits option.splits)

lemma demo_message_fields:
  "demo_message ''item_hash'' = Some (PStr ''h:hi'')"
  "demo_message ''chain'' = Some (PStr ''X'')"
  "demo_message ''sender'' = Some (PStr ''s'')"
  "demo_message ''signature'' = Some (PStr ''ok'')"
  "demo_message ''channel'' = None"
  "demo_message ''item_content'' = Some (PStr ''hi'')"
  "demo_message ''hash_type'' = None"
  "demo_message ''confirmed'' = Some (PBool True)"
  by (simp_all add: demo_message_def)

lemma demo_check_content:
  "check_content demo_net_env demo_message tr
     = Inr (Some (demo_message(''item_type'' \<mapsto> PItemType Inline)))"
  by (simp add: check_content_def get_or_none_def subscript_def demo_message_fields
      MAX_INLINE_SIZE_def demo_net_env_def)

lemma chain_authorized: "''chain'' \<in> set INCOMING_MESSAGE_AUTHORIZED_FIELDS"
  by (simp add: INCOMING_MESSAGE_AUTHORIZED_FIELDS_def)

lemma confirmed_not_authorized: "''confirmed'' \<notin> set INCOMING_MESSAGE_AUTHORIZED_FIELDS"
  by (simp add: INCOMING_MESSAGE_AUTHORIZED_FIELDS_def)

lemma demo_check_signature:
  "check_signature demo_net_env (demo_message(''item_type'' \<mapsto> PItemType Inline)) False
     = Inr (Some ((demo_message(''item_type'' \<mapsto> PItemType Inline))
                    |` set INCOMING_MESSAGE_AUTHORIZED_FIELDS))"
proof -
  have "((demo_message(''item_type'' \<mapsto> PItemType Inline))
           |` set INCOMING_MESSAGE_AUTHORIZED_FIELDS) ''chain'' = Some (PStr ''X'')"
    using chain_authorized by (simp add: demo_message_fields)
  moreover have "VERIFIER_REGISTER demo_net_env ''X'' = Some (\<lambda>m. Inr True)"
    by (simp add: demo_net_env_def)
  ultimately show ?thesis
    by (simp add: check_signature_def Let_def del: restrict_fun_upd)
qed

lemma demo_message_accepted:
  "check_message demo_net_env demo_message False True False =
     Inr (Some ((demo_message(''item_type'' \<mapsto> PItemType Inline))
                    |` set INCOMING_MESSAGE_AUTHORIZED_FIELDS))"
  by (simp add: guards_pass [OF demo_message_fields(1-5)] demo_check_content
      demo_check_signature del: restrict_fun_upd)

lemma demo_message_trusted:
  "check_message demo_net_env demo_message False True True =
     Inr (Some (demo_message(''item_type'' \<mapsto> PItemType Inline)))"
  by (simp add: guards_pass [OF demo_message_fields(1-5)] demo_check_content
      check_signature_def)

lemma demo_oversize_len: "py_len (PStr demo_oversize_content) = Inr 200001"
  by (simp only: py_len.simps demo_oversize_content_def length_replicate)

subsection \<open>Rejection by the type guards\<close>

text \<open>
  Claim C2, as amended. The claim says that \<open>check_message\<close> never raises, also when a
  guarded field is absent from the mapping. The four mandatory fields are read with
  \<open>message[...]\<close>, so an absent one that a guard reaches raises \<open>KeyError\<close>: the
  third theorem below runs the function on a message without \<open>sender\<close>. What holds is
  this. The guards run in the order \<open>item_hash\<close>, \<open>chain\<close>, \<open>channel\<close>,
  \<open>sender\<close>, \<open>signature\<close>, and the first that does not pass decides, whatever the
  environment, the flags and the fields read after it: a field that is present and not a
  string (for \<open>channel\<close>: present, not null and not a string) gives the null result and
  no exception; one of the mandatory fields \<open>item_hash\<close>, \<open>chain\<close>, \<open>sender\<close>,
  \<open>signature\<close> that is absent raises \<open>KeyError\<close> with its name. An absent or null
  \<open>channel\<close> passes.
\<close>

theorem check_message_guards:
  "(m ''item_hash'' = None \<longrightarrow>
      check_message env m from_chain from_network trusted = Inl (KeyError ''item_hash''))
   \<and> (is_non_str_field m ''item_hash'' \<longrightarrow>
      check_message env m from_chain from_network trusted = Inr None)
   \<and> (is_str_field m ''item_hash'' \<and> m ''chain'' = None \<longrightarrow>
      check_message env m from_chain from_network trusted = Inl (KeyError ''chain''))
   \<and> (is_str_field m ''item_hash'' \<and> is_non_str_field m ''chain'' \<longrightarrow>
      check_message env m from_chain from_network trusted = Inr None)
   \<and> (is_str_field m ''item_hash'' \<and> is_str_field m ''chain'' \<and> \<not> channel_passes m \<longrightarrow>
      check_message env m from_chain from_network trusted = Inr None)
   \<and> (is_str_field m ''item_hash'' \<and> is_str_field m ''chain'' \<and> channel_passes m
        \<and> m ''sender'' = None \<longrightarrow>
      check_message env m from_chain from_network trusted = Inl (KeyError ''sender''))
   \<and> (is_str_field m ''item_hash'' \<and> is_str_field m ''chain'' \<and> channel_passes m
        \<and> is_non_str_field m ''sender'' \<longrightarrow>
      check_message env m from_chain from_network trusted = Inr None)
   \<and> (is_str_field m ''item_hash'' \<and> is_str_field m ''chain'' \<and> channel_passes m
        \<and> is_str_field m ''sender'' \<and> m ''signature'' = None \<longrightarrow>
      check_message env m from_chain from_network trusted = Inl (KeyError ''signature''))
   \<and> (is_str_field m ''item_hash'' \<and> is_str_field m ''chain'' \<and> channel_passes m
        \<and> is_str_field m ''sender'' \<and> is_non_str_field m ''signature'' \<longrightarrow>
      check_message env m from_chain from_network trusted = Inr None)"
  by (auto simp: check_message_def subscript_def get_or_none_def is_str_field_def
      is_non_str_field_def channel_passes_def split: option.splits)

theorem check_message_guards_witness:
  "check_message demo_net_env (demo_message(''item_hash'' := None)) False True False
     = Inl (KeyError ''item_hash'')
   \<and> check_message demo_net_env [''item_hash'' \<mapsto> PInt 5] False True False = Inr None
   \<and> check_message demo_net_env (demo_message(''chain'' := None)) False True False
     = Inl (KeyError ''chain'')
   \<and> check_message demo_net_env (demo_message(''chain'' \<mapsto> PInt 3)) False True False
     = Inr None
   \<and> check_message demo_net_env (demo_message(''channel'' \<mapsto> PInt 1)) False True False
     = Inr None
   \<and> check_message demo_net_env (demo_message(''sender'' := None, ''channel'' \<mapsto> PNone))
       False True False
     = Inl (KeyError ''sender'')
   \<and> check_message demo_net_env (demo_message(''sender'' \<mapsto> PList [])) False True False
     = Inr None
   \<and> check_message demo_net_env (demo_message(''signature'' := None)) False True False
     = Inl (KeyError ''signature'')
   \<and> check_message demo_net_env (demo_message(''signature'' \<mapsto> PBool True)) False True False
     = Inr None"
proof -
  note f = demo_message_fields is_str_field_def is_non_str_field_def channel_passes_def
  have 1: "check_message demo_net_env (demo_message(''item_hash'' := None)) False True False
     = Inl (KeyError ''item_hash'')"
    using check_message_guards [of "demo_message(''item_hash'' := None)" demo_net_env False True False]
    by (simp add: f)
  have 2: "check_message demo_net_env [''item_hash'' \<mapsto> PInt 5] False True False = Inr None"
    using check_message_guards [of "[''item_hash'' \<mapsto> PInt 5]" demo_net_env False True False]
    by (simp add: f)
  have 3: "check_message demo_net_env (demo_message(''chain'' := None)) False True False
     = Inl (KeyError ''chain'')"
    using check_message_guards [of "demo_message(''chain'' := None)" demo_net_env False True False]
    by (simp add: f)
  have 4: "check_message demo_net_env (demo_message(''chain'' \<mapsto> PInt 3)) False True False
     = Inr None"
    using check_message_guards [of "demo_message(''chain'' \<mapsto> PInt 3)" demo_net_env False True False]
    by (simp add: f)
  have 5: "check_message demo_net_env (demo_message(''channel'' \<mapsto> PInt 1)) False True False
     = Inr None"
    using check_message_guards [of "demo_message(''channel'' \<mapsto> PInt 1)" demo_net_env False True False]
    by (simp add: f)
  have 6: "check_message demo_net_env (demo_message(''sender'' := None, ''channel'' \<mapsto> PNone))
       False True False
     = Inl (KeyError ''sender'')"
    using check_message_guards
      [of "demo_message(''sender'' := None, ''channel'' \<mapsto> PNone)" demo_net_env False True False]
    by (simp add: f)
  have 7: "check_message demo_net_env (demo_message(''sender'' \<mapsto> PList [])) False True False
     = Inr None"
    using check_message_guards [of "demo_message(''sender'' \<mapsto> PList [])" demo_net_env False True False]
    by (simp add: f)
  have 8: "check_message demo_net_env (demo_message(''signature'' := None)) False True False
     = Inl (KeyError ''signature'')"
    using check_message_guards [of "demo_message(''signature'' := None)" demo_net_env False True False]
    by (simp add: f)
  have 9: "check_message demo_net_env (demo_message(''signature'' \<mapsto> PBool True)) False True False
     = Inr None"
    using check_message_guards
      [of "demo_message(''signature'' \<mapsto> PBool True)" demo_net_env False True False]
    by (simp add: f)
  show ?thesis by (intro conjI) (rule 1 2 3 4 5 6 7 8 9)+
qed

theorem check_message_absent_field_raises:
  "check_message demo_net_env (demo_message(''sender'' := None)) False True False
     = Inl (KeyError ''sender'')"
  by (simp add: check_message_def subscript_def get_or_none_def demo_message_fields)

subsection \<open>Inline content\<close>

text \<open>
  Claim C6, as amended. The claim speaks of every untrusted message whose
  \<open>item_content\<close> is present. The length check is \<open>len(message["item_content"])\<close>,
  which raises \<open>TypeError\<close> on content that has no length, such as a JSON number: the
  third theorem below runs the function on a message with \<open>item_content = 5\<close> and an
  unknown \<open>hash_type\<close>, and the result is the exception, not null. What holds is this:
  for every untrusted message in which \<open>item_hash\<close>, \<open>chain\<close>, \<open>sender\<close> and
  \<open>signature\<close> are present and whose \<open>item_content\<close> is present, not null, and has a
  length \<open>n\<close>: when \<open>n > 200000\<close> the result is null; when \<open>hash_type\<close> is absent or
  \<open>sha256\<close> and the hash of the content differs from \<open>item_hash\<close> the result is null;
  when \<open>hash_type\<close> is given and is not \<open>sha256\<close> the result is null; and every
  message returned has \<open>item_type = Inline\<close>.
\<close>

theorem inline_content_checks:
  assumes "m ''item_hash'' = Some ih" and "m ''chain'' = Some ch"
    and "m ''sender'' = Some sd" and "m ''signature'' = Some sg"
    and "m ''item_content'' = Some c" and "c \<noteq> PNone" and "py_len c = Inr n"
  shows "(n > 200000 \<longrightarrow> check_message env m fc fn False = Inr None)
    \<and> ((m ''hash_type'' = None \<or> m ''hash_type'' = Some (PStr ''sha256''))
         \<and> get_sha256 env c = Inr h \<and> ih \<noteq> PStr h
       \<longrightarrow> check_message env m fc fn False = Inr None)
    \<and> (m ''hash_type'' \<noteq> None \<and> m ''hash_type'' \<noteq> Some (PStr ''sha256'')
       \<longrightarrow> check_message env m fc fn False = Inr None)
    \<and> (\<forall>r. check_message env m fc fn False = Inr (Some r)
       \<longrightarrow> r ''item_type'' = Some (PItemType Inline))"
proof -
  have content:
    "(n > 200000 \<longrightarrow> check_content env m False = Inr None)
     \<and> ((m ''hash_type'' = None \<or> m ''hash_type'' = Some (PStr ''sha256''))
         \<and> get_sha256 env c = Inr h \<and> ih \<noteq> PStr h
        \<longrightarrow> check_content env m False = Inr None)
     \<and> (m ''hash_type'' \<noteq> None \<and> m ''hash_type'' \<noteq> Some (PStr ''sha256'')
        \<longrightarrow> check_content env m False = Inr None)"
    using assms
    by (auto simp: check_content_def get_or_none_def subscript_def MAX_INLINE_SIZE_def
        split: option.splits)
  have rej: "check_message env m fc fn False = Inr None"
    if "check_content env m False = Inr None"
    using that assms(1-4)
    by (auto simp: check_message_def subscript_def split: sum.splits option.splits)
  have acc: "r ''item_type'' = Some (PItemType Inline)"
    if "check_message env m fc fn False = Inr (Some r)" for r
  proof -
    from check_message_result [OF that] obtain m' where
      c: "check_content env m False = Inr (Some m')"
      and s: "check_signature env m' False = Inr (Some r)"
      by blast
    have "m' = m(''item_type'' \<mapsto> PItemType Inline)"
      using check_content_item_type [OF assms(5) assms(6) c] .
    moreover have "r = m' |` set INCOMING_MESSAGE_AUTHORIZED_FIELDS"
      using check_signature_untrusted [OF s] .
    ultimately show ?thesis
      by (simp add: INCOMING_MESSAGE_AUTHORIZED_FIELDS_def)
  qed
  show ?thesis using content rej acc by blast
qed

theorem inline_content_checks_witness:
  "check_message demo_net_env
       (demo_message(''item_content'' \<mapsto> PStr demo_oversize_content)) False True False
     = Inr None
   \<and> check_message demo_net_env (demo_message(''item_content'' \<mapsto> PStr ''hi!'')) False True False
     = Inr None
   \<and> check_message demo_net_env (demo_message(''hash_type'' \<mapsto> PStr ''md5'')) False True False
     = Inr None
   \<and> check_message demo_net_env demo_message False True False
     = Inr (Some ((demo_message(''item_type'' \<mapsto> PItemType Inline))
                    |` set INCOMING_MESSAGE_AUTHORIZED_FIELDS))
   \<and> ((demo_message(''item_type'' \<mapsto> PItemType Inline))
         |` set INCOMING_MESSAGE_AUTHORIZED_FIELDS) ''item_type'' = Some (PItemType Inline)"
proof -
  have sha: "get_sha256 demo_net_env (PStr ''hi!'') = Inr ''h:hi!''"
    by (simp add: demo_net_env_def)
  have a: "check_message demo_net_env
       (demo_message(''item_content'' \<mapsto> PStr demo_oversize_content)) False True False
     = Inr None"
    using inline_content_checks
      [of "demo_message(''item_content'' \<mapsto> PStr demo_oversize_content)"
          "PStr ''h:hi''" "PStr ''X''" "PStr ''s''" "PStr ''ok''"
          "PStr demo_oversize_content" 200001 demo_net_env False True "''h''"]
      demo_oversize_len
    by (simp add: demo_message_fields)
  have b: "check_message demo_net_env (demo_message(''item_content'' \<mapsto> PStr ''hi!''))
       False True False = Inr None"
    using inline_content_checks
      [of "demo_message(''item_content'' \<mapsto> PStr ''hi!'')"
          "PStr ''h:hi''" "PStr ''X''" "PStr ''s''" "PStr ''ok''"
          "PStr ''hi!''" 3 demo_net_env False True "''h:hi!''"]
      sha
    by (simp add: demo_message_fields)
  have c: "check_message demo_net_env (demo_message(''hash_type'' \<mapsto> PStr ''md5''))
       False True False = Inr None"
    using inline_content_checks
      [of "demo_message(''hash_type'' \<mapsto> PStr ''md5'')"
          "PStr ''h:hi''" "PStr ''X''" "PStr ''s''" "PStr ''ok''"
          "PStr ''hi''" 2 demo_net_env False True "''h:hi''"]
    by (simp add: demo_message_fields)
  have d: "((demo_message(''item_type'' \<mapsto> PItemType Inline))
         |` set INCOMING_MESSAGE_AUTHORIZED_FIELDS) ''item_type'' = Some (PItemType Inline)"
    using inline_content_checks
      [of demo_message "PStr ''h:hi''" "PStr ''X''" "PStr ''s''" "PStr ''ok''"
          "PStr ''hi''" 2 demo_net_env False True "''h:hi''"]
      demo_message_accepted
    by (simp add: demo_message_fields)
  show ?thesis
    by (intro conjI) (rule a b c d demo_message_accepted)+
qed

theorem inline_content_without_length_raises:
  "check_message demo_net_env
     (demo_message(''item_content'' \<mapsto> PInt 5, ''hash_type'' \<mapsto> PStr ''md5'')) False True False
     = Inl TypeError"
  by (simp add: check_message_def subscript_def get_or_none_def check_content_def
      demo_message_fields)

subsection \<open>The field whitelist\<close>

text \<open>
  Claim C8. For every input mapping and every field outside the authorized list
  \<open>item_hash, item_content, item_type, chain, channel, sender, type, time, signature\<close>:
  when \<open>trusted\<close> is false the field is absent from every non-null result of
  \<open>check_message\<close>, and when \<open>trusted\<close> is true the field is in the result exactly as
  it was in the input.
\<close>

theorem field_whitelist:
  assumes "k \<notin> set INCOMING_MESSAGE_AUTHORIZED_FIELDS"
  shows "(\<forall>r. check_message env m fc fn False = Inr (Some r) \<longrightarrow> r k = None)
       \<and> (\<forall>r. check_message env m fc fn True = Inr (Some r) \<longrightarrow> r k = m k)"
proof (intro conjI allI impI)
  fix r assume "check_message env m fc fn False = Inr (Some r)"
  from check_message_result [OF this] obtain m' where
    "check_signature env m' False = Inr (Some r)" by blast
  from check_signature_untrusted [OF this] show "r k = None"
    using assms by (simp add: restrict_map_def)
next
  fix r assume "check_message env m fc fn True = Inr (Some r)"
  from check_message_result [OF this] obtain m' where
    c: "check_content env m True = Inr (Some m')"
    and s: "check_signature env m' True = Inr (Some r)"
    by blast
  from s have "r = m'" by (simp add: check_signature_def)
  moreover from c have "m' = m \<or> (\<exists>t. m' = m(''item_type'' \<mapsto> t))"
    by (rule check_content_changes_item_type_only)
  moreover have "k \<noteq> ''item_type''"
    using assms by (auto simp: INCOMING_MESSAGE_AUTHORIZED_FIELDS_def)
  ultimately show "r k = m k" by auto
qed

theorem field_whitelist_witness:
  "''confirmed'' \<notin> set INCOMING_MESSAGE_AUTHORIZED_FIELDS
   \<and> demo_message ''confirmed'' = Some (PBool True)
   \<and> check_message demo_net_env demo_message False True False
       = Inr (Some ((demo_message(''item_type'' \<mapsto> PItemType Inline))
                      |` set INCOMING_MESSAGE_AUTHORIZED_FIELDS))
   \<and> ((demo_message(''item_type'' \<mapsto> PItemType Inline))
         |` set INCOMING_MESSAGE_AUTHORIZED_FIELDS) ''confirmed'' = None
   \<and> check_message demo_net_env demo_message False True True
       = Inr (Some (demo_message(''item_type'' \<mapsto> PItemType Inline)))
   \<and> (demo_message(''item_type'' \<mapsto> PItemType Inline)) ''confirmed'' = Some (PBool True)"
proof -
  note w = field_whitelist [OF confirmed_not_authorized, of demo_net_env demo_message False True]
  from w demo_message_accepted
  have 1: "((demo_message(''item_type'' \<mapsto> PItemType Inline))
         |` set INCOMING_MESSAGE_AUTHORIZED_FIELDS) ''confirmed'' = None"
    by blast
  from w demo_message_trusted
  have "(demo_message(''item_type'' \<mapsto> PItemType Inline)) ''confirmed''
          = demo_message ''confirmed''"
    by blast
  then have 2: "(demo_message(''item_type'' \<mapsto> PItemType Inline)) ''confirmed''
          = Some (PBool True)"
    by (simp only: demo_message_fields)
  show ?thesis
    by (intro conjI)
       (rule confirmed_not_authorized demo_message_fields(8) demo_message_accepted 1
          demo_message_trusted 2)+
qed

section \<open>Content resolver: sources, verification and caching\<close>

subsection \<open>Auxiliary facts\<close>

lemma get_hash_content_cache:
  assumes "resolve_content env st h engine timeout tries use_network use_ipfs = (Inr (c, src), t)"
  shows "get_hash_content env st h engine timeout tries use_network use_ipfs store_value =
     (if store_value \<and> src \<noteq> Some DB then
        (case set_value_error env h c of
           Some e \<Rightarrow> (Inl e, st, t @ [SetValue h c])
         | None \<Rightarrow> (Inr \<lparr>hash = h, source = src, value_bytes = c\<rparr>, st(h \<mapsto> c),
                    t @ [SetValue h c]))
      else (Inr \<lparr>hash = h, source = src, value_bytes = c\<rparr>, st, t))"
  using assms by (simp add: get_hash_content_def set_value_def split: option.splits)

lemma resolve_db:
  assumes "st h = Some c"
  shows "resolve_content env st h engine timeout tries use_network use_ipfs
           = (Inr (c, Some DB), [GetValue h])"
  using assms by (simp add: resolve_content_def get_value_def)

lemma resolve_overlay:
  assumes "st h = None" "use_network"
    "fetch_content_from_network env h engine timeout = (Inr (Some c), tn)"
  shows "resolve_content env st h engine timeout tries use_network use_ipfs
           = (Inr (c, Some P2P), GetValue h # tn)"
  using assms by (simp add: resolve_content_def get_value_def)

lemma resolve_ipfs:
  assumes "st h = None"
    "use_network \<longrightarrow> fetch_content_from_network env h engine timeout = (Inr None, tn)"
    "ipfs_enabled env" "engine = IPFS" "use_ipfs"
  shows "resolve_content env st h engine timeout tries use_network use_ipfs
           = (case get_ipfs_content env h timeout tries of
                Inl e \<Rightarrow> (Inl e, GetValue h # (if use_network then tn else [])
                               @ [GetIpfsContent h timeout tries])
              | Inr None \<Rightarrow> (Inl ContentCurrentlyUnavailable,
                    GetValue h # (if use_network then tn else []) @ [GetIpfsContent h timeout tries])
              | Inr (Some c) \<Rightarrow> (Inr (c, Some IPFS_src),
                    GetValue h # (if use_network then tn else []) @ [GetIpfsContent h timeout tries]))"
  using assms by (simp add: resolve_content_def get_value_def split: sum.splits option.splits)

lemma resolve_unavailable:
  assumes "st h = None"
    "use_network \<longrightarrow> fst (fetch_content_from_network env h engine timeout) = Inr None"
    "ipfs_enabled env \<and> engine = IPFS \<and> use_ipfs \<longrightarrow> get_ipfs_content env h timeout tries = Inr None"
  shows "fst (resolve_content env st h engine timeout tries use_network use_ipfs)
           = Inl ContentCurrentlyUnavailable"
  using assms
  by (cases "fetch_content_from_network env h engine timeout")
     (auto simp: resolve_content_def get_value_def Let_def split: sum.splits option.splits)

lemma get_hash_content_fst:
  "fst (get_hash_content env st h engine timeout tries use_network use_ipfs store_value) = Inl e"
  if "fst (resolve_content env st h engine timeout tries use_network use_ipfs) = Inl e"
  using that
  by (cases "resolve_content env st h engine timeout tries use_network use_ipfs")
     (auto simp: get_hash_content_def)

lemma verify_trace:
  "\<exists>tv. snd (verify_content_hash env c engine h) = VerifyContentHash c engine h # tv
        \<and> (\<forall>h' c'. SetValue h' c' \<notin> set tv)
        \<and> (\<forall>c' e' h'. VerifyContentHash c' e' h' \<notin> set tv)"
  by (auto simp: verify_content_hash_def compute_content_hash_ipfs_def
      compute_content_hash_sha256_def Let_def split: sum.splits option.splits error.splits)

lemma fetch_shape:
  assumes "fetch_content_from_network env h engine timeout = (r, t)"
  shows "(set t \<subseteq> {StreamerRequestHash h, HttpRequestHash h timeout}
            \<and> (r = Inr None \<or> (\<exists>e. r = Inl e)))
       \<or> (\<exists>c pre. set pre \<subseteq> {StreamerRequestHash h, HttpRequestHash h timeout}
            \<and> t = pre @ snd (verify_content_hash env c engine h)
            \<and> r = (case fst (verify_content_hash env c engine h) of
                     Inl e \<Rightarrow> Inl e | Inr u \<Rightarrow> Inr (Some c)))"
proof -
  let ?R = "{StreamerRequestHash h, HttpRequestHash h timeout}"
  define s1 where "s1 = (if ''protocol'' \<in> set (p2p_clients env)
            then (streamer_request_hash env h, [StreamerRequestHash h])
            else (Inr None, []))"
  obtain r1 t1 where s1: "s1 = (r1, t1)" by (cases s1) auto
  have t1: "set t1 \<subseteq> ?R" using s1 by (auto simp: s1_def split: if_splits)
  have f: "fetch_content_from_network env h engine timeout =
     (case (r1, t1) of
        (Inl e, t1) \<Rightarrow> (Inl e, t1)
      | (Inr content1, t1) \<Rightarrow>
          (case (if content1 = None \<and> ''http'' \<in> set (p2p_clients env)
                 then (p2p_http_request_hash env h timeout, t1 @ [HttpRequestHash h timeout])
                 else (Inr content1, t1)) of
             (Inl e, t2) \<Rightarrow> (Inl e, t2)
           | (Inr None, t2) \<Rightarrow> (Inr None, t2)
           | (Inr (Some content), t2) \<Rightarrow>
               (case verify_content_hash env content engine h of
                  (Inl e, t3) \<Rightarrow> (Inl e, t2 @ t3)
                | (Inr u, t3) \<Rightarrow> (Inr (Some content), t2 @ t3))))"
    unfolding fetch_content_from_network_def s1 [symmetric] s1_def ..
  show ?thesis
  proof (cases r1)
    case (Inl e)
    with f assms t1 show ?thesis by auto
  next
    case (Inr content1)
    define s2 where "s2 = (if content1 = None \<and> ''http'' \<in> set (p2p_clients env)
                 then (p2p_http_request_hash env h timeout, t1 @ [HttpRequestHash h timeout])
                 else (Inr content1, t1))"
    obtain r2 t2 where s2: "s2 = (r2, t2)" by (cases s2) auto
    have t2: "set t2 \<subseteq> ?R" using s2 t1 by (auto simp: s2_def split: if_splits)
    have f2: "(r, t) = (case (r2, t2) of
             (Inl e, t2) \<Rightarrow> (Inl e, t2)
           | (Inr None, t2) \<Rightarrow> (Inr None, t2)
           | (Inr (Some content), t2) \<Rightarrow>
               (case verify_content_hash env content engine h of
                  (Inl e, t3) \<Rightarrow> (Inl e, t2 @ t3)
                | (Inr u, t3) \<Rightarrow> (Inr (Some content), t2 @ t3)))"
      using f assms Inr unfolding s2 [symmetric] s2_def by simp
    show ?thesis
    proof (cases r2)
      case (Inl e)
      with f2 t2 show ?thesis by auto
    next
      case r2: (Inr content2)
      show ?thesis
      proof (cases content2)
        case None
        with f2 r2 t2 show ?thesis by auto
      next
        case (Some c)
        obtain rv tv where v: "verify_content_hash env c engine h = (rv, tv)"
          by (cases "verify_content_hash env c engine h") auto
        have "t = t2 @ snd (verify_content_hash env c engine h)
            \<and> r = (case fst (verify_content_hash env c engine h) of
                     Inl e \<Rightarrow> Inl e | Inr u \<Rightarrow> Inr (Some c))"
          using f2 r2 Some v by (cases rv) auto
        with t2 show ?thesis by blast
      qed
    qed
  qed
qed

lemma resolve_shape:
  assumes "resolve_content env st h engine timeout tries use_network use_ipfs = (R, t)"
  shows "(\<exists>c. st h = Some c \<and> R = Inr (c, Some DB) \<and> t = [GetValue h])
       \<or> (\<exists>c pre. set pre \<subseteq> {GetValue h, StreamerRequestHash h, HttpRequestHash h timeout}
             \<and> t = pre @ snd (verify_content_hash env c engine h)
             \<and> R = (case fst (verify_content_hash env c engine h) of
                      Inl e \<Rightarrow> Inl e | Inr u \<Rightarrow> Inr (c, Some P2P)))
       \<or> ((\<forall>c e x. VerifyContentHash c e x \<notin> set t)
             \<and> (\<forall>c v. AddIpfsBytes c v \<notin> set t)
             \<and> (\<forall>x c. SetValue x c \<notin> set t)
             \<and> (\<forall>c src. R = Inr (c, src) \<longrightarrow>
                   src = Some IPFS_src \<and> get_ipfs_content env h timeout tries = Inr (Some c)))"
proof (cases "st h")
  case (Some c)
  then show ?thesis using assms by (simp add: resolve_content_def get_value_def)
next
  case None
  show ?thesis
  proof (cases use_network)
    case False
    with None assms show ?thesis
      by (auto simp: resolve_content_def get_value_def Let_def
          split: if_splits sum.splits option.splits)
  next
    case True
    obtain r tn where f: "fetch_content_from_network env h engine timeout = (r, tn)"
      by (cases "fetch_content_from_network env h engine timeout") auto
    from fetch_shape [OF f] show ?thesis
    proof
      assume q: "set tn \<subseteq> {StreamerRequestHash h, HttpRequestHash h timeout}
            \<and> (r = Inr None \<or> (\<exists>e. r = Inl e))"
      then have "\<forall>c e x. VerifyContentHash c e x \<notin> set tn"
        and "\<forall>c v. AddIpfsBytes c v \<notin> set tn" and "\<forall>x c. SetValue x c \<notin> set tn"
        by auto
      with q None True f assms show ?thesis
        by (auto simp: resolve_content_def get_value_def Let_def
            split: if_splits sum.splits option.splits)
    next
      assume "\<exists>c pre. set pre \<subseteq> {StreamerRequestHash h, HttpRequestHash h timeout}
            \<and> tn = pre @ snd (verify_content_hash env c engine h)
            \<and> r = (case fst (verify_content_hash env c engine h) of
                     Inl e \<Rightarrow> Inl e | Inr u \<Rightarrow> Inr (Some c))"
      then obtain c pre where pre: "set pre \<subseteq> {StreamerRequestHash h, HttpRequestHash h timeout}"
        and tn: "tn = pre @ snd (verify_content_hash env c engine h)"
        and r: "r = (case fst (verify_content_hash env c engine h) of
                     Inl e \<Rightarrow> Inl e | Inr u \<Rightarrow> Inr (Some c))"
        by blast
      have "set (GetValue h # pre) \<subseteq> {GetValue h, StreamerRequestHash h, HttpRequestHash h timeout}"
        using pre by auto
      moreover have "t = (GetValue h # pre) @ snd (verify_content_hash env c engine h)
             \<and> R = (case fst (verify_content_hash env c engine h) of
                      Inl e \<Rightarrow> Inl e | Inr u \<Rightarrow> Inr (c, Some P2P))"
        using None True f assms tn r
        by (cases "fst (verify_content_hash env c engine h)")
           (auto simp: resolve_content_def get_value_def Let_def)
      ultimately show ?thesis by blast
    qed
  qed
qed

lemma get_hash_content_shape:
  assumes "get_hash_content env st h engine timeout tries use_network use_ipfs store_value
             = (res, st', t)"
  obtains (failed) e where
      "resolve_content env st h engine timeout tries use_network use_ipfs = (Inl e, t)"
      "res = Inl e" "st' = st"
    | (found) c src t0 where
      "resolve_content env st h engine timeout tries use_network use_ipfs = (Inr (c, src), t0)"
      "(res, st', t) =
         (if store_value \<and> src \<noteq> Some DB then
            (case set_value_error env h c of
               Some e \<Rightarrow> (Inl e, st, t0 @ [SetValue h c])
             | None \<Rightarrow> (Inr \<lparr>hash = h, source = src, value_bytes = c\<rparr>, st(h \<mapsto> c),
                        t0 @ [SetValue h c]))
          else (Inr \<lparr>hash = h, source = src, value_bytes = c\<rparr>, st, t0))"
proof (cases "resolve_content env st h engine timeout tries use_network use_ipfs")
  case (Pair R t0)
  show ?thesis
  proof (cases R)
    case (Inl e)
    with Pair assms have "res = Inl e" "st' = st" "t = t0"
      by (simp_all add: get_hash_content_def)
    with Pair Inl show ?thesis by (intro failed) simp_all
  next
    case (Inr cs)
    obtain c src where cs: "cs = (c, src)" by (cases cs) auto
    from Pair Inr cs have r: "resolve_content env st h engine timeout tries use_network use_ipfs
        = (Inr (c, src), t0)" by simp
    from get_hash_content_cache [OF r, of store_value] assms
    show ?thesis by (intro found [OF r]) simp
  qed
qed

lemma demo_p2p_fetch:
  "fetch_content_from_network demo_p2p_env ''digest'' Storage 2
     = (Inr (Some [1, 2, 3]), [StreamerRequestHash ''digest'',
         VerifyContentHash [1, 2, 3] Storage ''digest''])"
  by (simp add: fetch_content_from_network_def demo_p2p_env_def demo_storage_env_def
      verify_content_hash_def compute_content_hash_sha256_def)

lemma demo_failing_fetch:
  "fetch_content_from_network demo_failing_store_env ''digest'' Storage 2
     = (Inr (Some [1, 2, 3]), [StreamerRequestHash ''digest'',
         VerifyContentHash [1, 2, 3] Storage ''digest''])"
  by (simp add: fetch_content_from_network_def demo_failing_store_env_def demo_p2p_env_def
      demo_storage_env_def verify_content_hash_def compute_content_hash_sha256_def)

lemma demo_storage_fetch:
  "fetch_content_from_network demo_storage_env ''QmExpected'' IPFS 2
     = (Inr None, [StreamerRequestHash ''QmExpected'', HttpRequestHash ''QmExpected'' 2])"
  by (simp add: fetch_content_from_network_def demo_storage_env_def)

lemma demo_silent_fetch:
  "fetch_content_from_network demo_silent_env ''QmExpected'' IPFS 2
     = (Inr None, [StreamerRequestHash ''QmExpected'', HttpRequestHash ''QmExpected'' 2])"
  by (simp add: fetch_content_from_network_def demo_silent_env_def demo_storage_env_def)

lemma demo_p2p_get:
  "get_hash_content demo_p2p_env Map.empty ''digest'' Storage 2 1 True True True
     = (Inr \<lparr>hash = ''digest'', source = Some P2P, value_bytes = [1, 2, 3]\<rparr>,
        [''digest'' \<mapsto> [1, 2, 3]],
        [GetValue ''digest'', StreamerRequestHash ''digest'',
         VerifyContentHash [1, 2, 3] Storage ''digest'', SetValue ''digest'' [1, 2, 3]])"
proof -
  have "resolve_content demo_p2p_env Map.empty ''digest'' Storage 2 1 True True
          = (Inr ([1, 2, 3], Some P2P), GetValue ''digest'' # [StreamerRequestHash ''digest'',
         VerifyContentHash [1, 2, 3] Storage ''digest''])"
    by (rule resolve_overlay) (simp_all add: demo_p2p_fetch)
  from get_hash_content_cache [OF this, of True] show ?thesis
    by (simp add: demo_p2p_env_def demo_storage_env_def)
qed

lemma demo_corrupt_fetch:
  "fetch_content_from_network demo_p2p_env ''expected'' Storage 2
     = (Inl InvalidContent,
        [StreamerRequestHash ''expected'', VerifyContentHash [1, 2, 3] Storage ''expected''])"
  by (simp add: fetch_content_from_network_def demo_p2p_env_def demo_storage_env_def
      verify_content_hash_def compute_content_hash_sha256_def)

lemma demo_corrupt_get:
  "get_hash_content demo_p2p_env Map.empty ''expected'' Storage 2 1 True True True
     = (Inl InvalidContent, Map.empty,
        [GetValue ''expected'', StreamerRequestHash ''expected'',
         VerifyContentHash [1, 2, 3] Storage ''expected''])"
  by (simp add: get_hash_content_def resolve_content_def get_value_def demo_corrupt_fetch)

lemma demo_ipfs_get:
  "get_hash_content demo_storage_env Map.empty ''QmExpected'' IPFS 2 1 True True True =
     (Inr \<lparr>hash = ''QmExpected'', source = Some IPFS_src, value_bytes = [1, 2, 3]\<rparr>,
      [''QmExpected'' \<mapsto> [1, 2, 3]],
      [GetValue ''QmExpected'', StreamerRequestHash ''QmExpected'',
       HttpRequestHash ''QmExpected'' 2, GetIpfsContent ''QmExpected'' 2 1,
       SetValue ''QmExpected'' [1, 2, 3]])"
  by (simp add: get_hash_content_def resolve_content_def fetch_content_from_network_def
      get_value_def set_value_def demo_storage_env_def)

lemma demo_verify:
  "fst (verify_content_hash demo_p2p_env [1, 2, 3] Storage ''digest'') = Inr ()"
  "fst (verify_content_hash demo_p2p_env [1, 2, 3] Storage ''expected'') = Inl InvalidContent"
  "fst (verify_content_hash demo_storage_env [1, 2, 3] IPFS ''QmExpected'') = Inl InvalidContent"
  by (simp_all add: verify_content_hash_def compute_content_hash_sha256_def
      compute_content_hash_ipfs_def demo_p2p_env_def demo_storage_env_def)

subsection \<open>Verification of fetched content\<close>

text \<open>
  Claim C1, as amended. The claim says that bytes from every source other than the
  local store, the distributed network included, are verified with
  \<open>verify_content_hash\<close> before they are cached or returned. Only
  \<open>fetch_content_from_network\<close> calls \<open>verify_content_hash\<close>; the bytes that
  \<open>get_ipfs_content\<close> gives are cached and returned as they come. The third theorem
  below runs a resolve in which the distributed network answers with bytes whose hash
  is not the requested one: they are returned with \<open>source = IPFS\<close> and written to the
  store, and \<open>verify_content_hash\<close> on those bytes raises \<open>InvalidContent\<close>.
  What holds, for every call of \<open>get_hash_content\<close>, is this. When the call returns with
  \<open>source = P2P\<close>, the returned bytes pass \<open>verify_content_hash\<close> against the requested
  hash under the given engine; the trace of the call is the read of the store and the
  overlay requests, then the call of \<open>verify_content_hash\<close> on those bytes with the calls
  it makes, and only then, when \<open>store_value\<close> holds, the write to the store; and the
  store afterwards differs from the store before at most by those bytes under that hash.
  When \<open>verify_content_hash\<close> was called and fails, the call fails with the same
  exception, the store is unchanged and no write to the store was made. When the call
  returns with \<open>source = IPFS\<close>, the bytes are those that \<open>get_ipfs_content\<close> gave,
  \<open>verify_content_hash\<close> was not called and no hash was computed, and the bytes are
  written to the store when \<open>store_value\<close> holds.
\<close>

theorem content_verified_before_cached:
  assumes "get_hash_content env st h engine timeout tries use_network use_ipfs store_value
             = (res, st', t)"
  shows "(\<forall>r. res = Inr r \<and> source r = Some P2P \<longrightarrow>
            fst (verify_content_hash env (value_bytes r) engine h) = Inr ()
          \<and> (\<exists>pre tv.
                set pre \<subseteq> {GetValue h, StreamerRequestHash h, HttpRequestHash h timeout}
              \<and> snd (verify_content_hash env (value_bytes r) engine h)
                  = VerifyContentHash (value_bytes r) engine h # tv
              \<and> t = pre @ VerifyContentHash (value_bytes r) engine h # tv
                     @ (if store_value then [SetValue h (value_bytes r)] else []))
          \<and> st' = (if store_value then st(h \<mapsto> value_bytes r) else st))
       \<and> (\<forall>c eng x e. VerifyContentHash c eng x \<in> set t
                       \<and> fst (verify_content_hash env c eng x) = Inl e \<longrightarrow>
            res = Inl e \<and> st' = st \<and> (\<forall>h' c'. SetValue h' c' \<notin> set t))
       \<and> (\<forall>r. res = Inr r \<and> source r = Some IPFS_src \<longrightarrow>
            get_ipfs_content env h timeout tries = Inr (Some (value_bytes r))
          \<and> (\<forall>c eng x. VerifyContentHash c eng x \<notin> set t)
          \<and> (\<forall>c v. AddIpfsBytes c v \<notin> set t)
          \<and> st' = (if store_value then st(h \<mapsto> value_bytes r) else st))"
  using assms
proof (cases rule: get_hash_content_shape)
  case (failed e)
  from resolve_shape [OF failed(1)] show ?thesis
  proof (elim disjE exE conjE)
    fix c assume "Inl e = Inr (c, Some DB)"
    then show ?thesis by simp
  next
    fix c pre
    assume pre: "set pre \<subseteq> {GetValue h, StreamerRequestHash h, HttpRequestHash h timeout}"
      and t: "t = pre @ snd (verify_content_hash env c engine h)"
      and R: "Inl e = (case fst (verify_content_hash env c engine h) of
                      Inl e \<Rightarrow> Inl e | Inr u \<Rightarrow> Inr (c, Some P2P))"
    from R have v: "fst (verify_content_hash env c engine h) = Inl e"
      by (cases "fst (verify_content_hash env c engine h)") auto
    from verify_trace [of env c engine h] obtain tv where
      tv: "snd (verify_content_hash env c engine h) = VerifyContentHash c engine h # tv"
      "\<forall>h' c'. SetValue h' c' \<notin> set tv" "\<forall>c' e' h'. VerifyContentHash c' e' h' \<notin> set tv"
      by blast
    have only: "c' = c \<and> eng = engine \<and> x = h"
      if "VerifyContentHash c' eng x \<in> set t" for c' eng x
      using that pre tv unfolding t by auto
    have nos: "\<forall>h' c'. SetValue h' c' \<notin> set t"
      using pre tv unfolding t by auto
    show ?thesis using failed(2,3) only nos v by auto
  next
    assume "\<forall>c e x. VerifyContentHash c e x \<notin> set t" "\<forall>x c. SetValue x c \<notin> set t"
    then show ?thesis using failed(2,3) by auto
  qed
next
  case (found c src t0)
  from resolve_shape [OF found(1)] show ?thesis
  proof (elim disjE exE conjE)
    fix c' assume "Inr (c, src) = Inr (c', Some DB)" "t0 = [GetValue h]"
    then show ?thesis using found(2) by auto
  next
    fix c' pre
    assume pre: "set pre \<subseteq> {GetValue h, StreamerRequestHash h, HttpRequestHash h timeout}"
      and t0: "t0 = pre @ snd (verify_content_hash env c' engine h)"
      and R: "Inr (c, src) = (case fst (verify_content_hash env c' engine h) of
                      Inl e \<Rightarrow> Inl e | Inr u \<Rightarrow> Inr (c', Some P2P))"
    from R have v: "fst (verify_content_hash env c engine h) = Inr ()"
      and c: "c' = c" and src: "src = Some P2P"
      by (cases "fst (verify_content_hash env c' engine h)"; auto)+
    from verify_trace [of env c engine h] obtain tv where
      tv: "snd (verify_content_hash env c engine h) = VerifyContentHash c engine h # tv"
      "\<forall>h' c'. SetValue h' c' \<notin> set tv" "\<forall>c' e' h'. VerifyContentHash c' e' h' \<notin> set tv"
      by blast
    have only: "c'' = c \<and> eng = engine \<and> x = h"
      if "VerifyContentHash c'' eng x \<in> set t0" for c'' eng x
      using that pre tv unfolding t0 c by auto
    have t0': "t0 = pre @ VerifyContentHash c engine h # tv"
      using t0 tv(1) c by simp
    have A: "\<forall>r. res = Inr r \<and> source r = Some P2P \<longrightarrow>
            fst (verify_content_hash env (value_bytes r) engine h) = Inr ()
          \<and> (\<exists>pre tv.
                set pre \<subseteq> {GetValue h, StreamerRequestHash h, HttpRequestHash h timeout}
              \<and> snd (verify_content_hash env (value_bytes r) engine h)
                  = VerifyContentHash (value_bytes r) engine h # tv
              \<and> t = pre @ VerifyContentHash (value_bytes r) engine h # tv
                     @ (if store_value then [SetValue h (value_bytes r)] else []))
          \<and> st' = (if store_value then st(h \<mapsto> value_bytes r) else st)"
    proof (intro allI impI)
      fix r assume r: "res = Inr r \<and> source r = Some P2P"
      with found(2) src have rv: "value_bytes r = c"
        and tt: "t = t0 @ (if store_value then [SetValue h c] else [])"
        and ss: "st' = (if store_value then st(h \<mapsto> c) else st)"
        by (auto split: if_splits option.splits)
      have "\<exists>pre tv.
                set pre \<subseteq> {GetValue h, StreamerRequestHash h, HttpRequestHash h timeout}
              \<and> snd (verify_content_hash env c engine h) = VerifyContentHash c engine h # tv
              \<and> t = pre @ VerifyContentHash c engine h # tv
                     @ (if store_value then [SetValue h c] else [])"
        using pre tv(1) tt t0' by auto
      with v ss show "fst (verify_content_hash env (value_bytes r) engine h) = Inr ()
          \<and> (\<exists>pre tv.
                set pre \<subseteq> {GetValue h, StreamerRequestHash h, HttpRequestHash h timeout}
              \<and> snd (verify_content_hash env (value_bytes r) engine h)
                  = VerifyContentHash (value_bytes r) engine h # tv
              \<and> t = pre @ VerifyContentHash (value_bytes r) engine h # tv
                     @ (if store_value then [SetValue h (value_bytes r)] else []))
          \<and> st' = (if store_value then st(h \<mapsto> value_bytes r) else st)"
        unfolding rv by simp
    qed
    have B: "\<forall>c eng x e. VerifyContentHash c eng x \<in> set t
                       \<and> fst (verify_content_hash env c eng x) = Inl e \<longrightarrow>
            res = Inl e \<and> st' = st \<and> (\<forall>h' c'. SetValue h' c' \<notin> set t)"
    proof (intro allI impI)
      fix c'' eng x e
      assume a: "VerifyContentHash c'' eng x \<in> set t
                       \<and> fst (verify_content_hash env c'' eng x) = Inl e"
      have "VerifyContentHash c'' eng x \<in> set t0"
        using a found(2) by (auto split: if_splits option.splits)
      from only [OF this] a v
      show "res = Inl e \<and> st' = st \<and> (\<forall>h' c'. SetValue h' c' \<notin> set t)"
        by auto
    qed
    have C: "\<forall>r. res = Inr r \<and> source r = Some IPFS_src \<longrightarrow>
            get_ipfs_content env h timeout tries = Inr (Some (value_bytes r))
          \<and> (\<forall>c eng x. VerifyContentHash c eng x \<notin> set t)
          \<and> (\<forall>c v. AddIpfsBytes c v \<notin> set t)
          \<and> st' = (if store_value then st(h \<mapsto> value_bytes r) else st)"
      using found(2) src by (auto split: if_splits option.splits)
    show ?thesis by (rule conjI [OF A conjI [OF B C]])
  next
    assume nov: "\<forall>c e x. VerifyContentHash c e x \<notin> set t0"
      and noa: "\<forall>c v. AddIpfsBytes c v \<notin> set t0"
      and nos: "\<forall>x c. SetValue x c \<notin> set t0"
      and R: "\<forall>c' src'. Inr (c, src) = Inr (c', src') \<longrightarrow>
                   src' = Some IPFS_src \<and> get_ipfs_content env h timeout tries = Inr (Some c')"
    from R have src: "src = Some IPFS_src"
      and g: "get_ipfs_content env h timeout tries = Inr (Some c)" by auto
    have tt: "t = t0 \<or> t = t0 @ [SetValue h c]"
      using found(2) by (auto split: if_splits option.splits)
    have nov': "\<forall>c e x. VerifyContentHash c e x \<notin> set t"
      and noa': "\<forall>c v. AddIpfsBytes c v \<notin> set t"
      using tt nov noa by auto
    have A: "\<forall>r. res = Inr r \<and> source r = Some P2P \<longrightarrow>
            fst (verify_content_hash env (value_bytes r) engine h) = Inr ()
          \<and> (\<exists>pre tv.
                set pre \<subseteq> {GetValue h, StreamerRequestHash h, HttpRequestHash h timeout}
              \<and> snd (verify_content_hash env (value_bytes r) engine h)
                  = VerifyContentHash (value_bytes r) engine h # tv
              \<and> t = pre @ VerifyContentHash (value_bytes r) engine h # tv
                     @ (if store_value then [SetValue h (value_bytes r)] else []))
          \<and> st' = (if store_value then st(h \<mapsto> value_bytes r) else st)"
      using found(2) src by (auto split: if_splits option.splits)
    have B: "\<forall>c eng x e. VerifyContentHash c eng x \<in> set t
                       \<and> fst (verify_content_hash env c eng x) = Inl e \<longrightarrow>
            res = Inl e \<and> st' = st \<and> (\<forall>h' c'. SetValue h' c' \<notin> set t)"
      using nov' by blast
    have C: "\<forall>r. res = Inr r \<and> source r = Some IPFS_src \<longrightarrow>
            get_ipfs_content env h timeout tries = Inr (Some (value_bytes r))
          \<and> (\<forall>c eng x. VerifyContentHash c eng x \<notin> set t)
          \<and> (\<forall>c v. AddIpfsBytes c v \<notin> set t)
          \<and> st' = (if store_value then st(h \<mapsto> value_bytes r) else st)"
    proof (intro allI impI)
      fix r assume "res = Inr r \<and> source r = Some IPFS_src"
      with found(2) src g
      have "get_ipfs_content env h timeout tries = Inr (Some (value_bytes r))
          \<and> st' = (if store_value then st(h \<mapsto> value_bytes r) else st)"
        by (auto split: if_splits option.splits)
      with nov' noa'
      show "get_ipfs_content env h timeout tries = Inr (Some (value_bytes r))
          \<and> (\<forall>c eng x. VerifyContentHash c eng x \<notin> set t)
          \<and> (\<forall>c v. AddIpfsBytes c v \<notin> set t)
          \<and> st' = (if store_value then st(h \<mapsto> value_bytes r) else st)"
        by blast
    qed
    show ?thesis by (rule conjI [OF A conjI [OF B C]])
  qed
qed

theorem content_verified_before_cached_witness:
  "get_hash_content demo_p2p_env Map.empty ''digest'' Storage 2 1 True True True
     = (Inr \<lparr>hash = ''digest'', source = Some P2P, value_bytes = [1, 2, 3]\<rparr>,
        [''digest'' \<mapsto> [1, 2, 3]],
        [GetValue ''digest'', StreamerRequestHash ''digest'',
         VerifyContentHash [1, 2, 3] Storage ''digest'', SetValue ''digest'' [1, 2, 3]])
   \<and> fst (verify_content_hash demo_p2p_env [1, 2, 3] Storage ''digest'') = Inr ()
   \<and> fst (verify_content_hash demo_p2p_env [1, 2, 3] Storage ''expected'') = Inl InvalidContent
   \<and> get_hash_content demo_p2p_env Map.empty ''expected'' Storage 2 1 True True True
     = (Inl InvalidContent, Map.empty,
        [GetValue ''expected'', StreamerRequestHash ''expected'',
         VerifyContentHash [1, 2, 3] Storage ''expected''])
   \<and> SetValue ''expected'' [1, 2, 3]
         \<notin> set [GetValue ''expected'', StreamerRequestHash ''expected'',
                  VerifyContentHash [1, 2, 3] Storage ''expected'']
   \<and> get_hash_content demo_storage_env Map.empty ''QmExpected'' IPFS 2 1 True True True =
     (Inr \<lparr>hash = ''QmExpected'', source = Some IPFS_src, value_bytes = [1, 2, 3]\<rparr>,
      [''QmExpected'' \<mapsto> [1, 2, 3]],
      [GetValue ''QmExpected'', StreamerRequestHash ''QmExpected'',
       HttpRequestHash ''QmExpected'' 2, GetIpfsContent ''QmExpected'' 2 1,
       SetValue ''QmExpected'' [1, 2, 3]])
   \<and> get_ipfs_content demo_storage_env ''QmExpected'' 2 1 = Inr (Some [1, 2, 3])"
proof -
  from content_verified_before_cached [OF demo_p2p_get]
  have a: "fst (verify_content_hash demo_p2p_env [1, 2, 3] Storage ''digest'') = Inr ()"
    by simp
  from content_verified_before_cached [OF demo_corrupt_get] demo_verify(2)
  have b: "SetValue ''expected'' [1, 2, 3]
             \<notin> set [GetValue ''expected'', StreamerRequestHash ''expected'',
                      VerifyContentHash [1, 2, 3] Storage ''expected'']"
    by simp
  from content_verified_before_cached [OF demo_ipfs_get]
  have c: "get_ipfs_content demo_storage_env ''QmExpected'' 2 1 = Inr (Some [1, 2, 3])"
    by simp
  show ?thesis
    by (intro conjI) (rule demo_p2p_get a demo_verify(2) demo_corrupt_get b demo_ipfs_get c)+
qed

theorem ipfs_content_is_not_verified:
  "get_hash_content demo_storage_env Map.empty ''QmExpected'' IPFS 2 1 True True True =
     (Inr \<lparr>hash = ''QmExpected'', source = Some IPFS_src, value_bytes = [1, 2, 3]\<rparr>,
      [''QmExpected'' \<mapsto> [1, 2, 3]],
      [GetValue ''QmExpected'', StreamerRequestHash ''QmExpected'',
       HttpRequestHash ''QmExpected'' 2, GetIpfsContent ''QmExpected'' 2 1,
       SetValue ''QmExpected'' [1, 2, 3]])
   \<and> fst (verify_content_hash demo_storage_env [1, 2, 3] IPFS ''QmExpected'') = Inl InvalidContent"
  by (intro conjI) (rule demo_ipfs_get demo_verify(3))+

subsection \<open>A failing write to the local store\<close>

text \<open>
  Claim C3, as amended. The claim says that a failure of the write-through, \<open>set_value\<close>
  raising, does not fail the resolve and is only logged. The call to \<open>set_value\<close> at line
  204 stands in no \<open>try\<close> block and nothing is logged on failure; the second theorem
  below runs a resolve in which the overlay gives good bytes and the store refuses the
  write, and the result is the store's exception. What holds is this: for every
  resolution that has found content with a source other than the local store, with
  \<open>store_value\<close> true, \<open>get_hash_content\<close> returns the bytes when \<open>set_value\<close>
  succeeds, and fails with the exception of \<open>set_value\<close>, the store unchanged, when it
  raises.
\<close>

theorem store_failure_fails_resolve:
  assumes "resolve_content env st h engine timeout tries use_network use_ipfs = (Inr (c, src), t)"
    and "src \<noteq> Some DB"
  shows "get_hash_content env st h engine timeout tries use_network use_ipfs True =
     (case set_value_error env h c of
        Some e \<Rightarrow> (Inl e, st, t @ [SetValue h c])
      | None \<Rightarrow> (Inr \<lparr>hash = h, source = src, value_bytes = c\<rparr>, st(h \<mapsto> c),
                 t @ [SetValue h c]))"
  using get_hash_content_cache[OF assms(1), of True] assms(2) by simp

theorem store_failure_fails_resolve_witness:
  "resolve_content demo_p2p_env Map.empty ''digest'' Storage 2 1 True True
     = (Inr ([1, 2, 3], Some P2P), [GetValue ''digest'', StreamerRequestHash ''digest'',
         VerifyContentHash [1, 2, 3] Storage ''digest''])
   \<and> Some P2P \<noteq> Some DB
   \<and> set_value_error demo_p2p_env ''digest'' [1, 2, 3] = None
   \<and> get_hash_content demo_p2p_env Map.empty ''digest'' Storage 2 1 True True True
     = (Inr \<lparr>hash = ''digest'', source = Some P2P, value_bytes = [1, 2, 3]\<rparr>,
        [''digest'' \<mapsto> [1, 2, 3]],
        [GetValue ''digest'', StreamerRequestHash ''digest'',
         VerifyContentHash [1, 2, 3] Storage ''digest'', SetValue ''digest'' [1, 2, 3]])"
proof -
  have r: "resolve_content demo_p2p_env Map.empty ''digest'' Storage 2 1 True True
          = (Inr ([1, 2, 3], Some P2P), [GetValue ''digest'', StreamerRequestHash ''digest'',
         VerifyContentHash [1, 2, 3] Storage ''digest''])"
    using resolve_overlay [of Map.empty "''digest''" True demo_p2p_env Storage 2 "[1, 2, 3]"
        "[StreamerRequestHash ''digest'', VerifyContentHash [1, 2, 3] Storage ''digest'']" 1 True] demo_p2p_fetch
    by simp
  have n: "Some P2P \<noteq> Some DB" by simp
  have e: "set_value_error demo_p2p_env ''digest'' [1, 2, 3] = None"
    by (simp add: demo_p2p_env_def demo_storage_env_def)
  show ?thesis
    using r n e store_failure_fails_resolve [OF r n] by simp
qed

theorem store_failure_propagates:
  "get_hash_content demo_failing_store_env Map.empty ''digest'' Storage 2 1 True True True
     = (Inl (OtherError ''disk full''), Map.empty,
        [GetValue ''digest'', StreamerRequestHash ''digest'',
         VerifyContentHash [1, 2, 3] Storage ''digest'', SetValue ''digest'' [1, 2, 3]])"
proof -
  have "resolve_content demo_failing_store_env Map.empty ''digest'' Storage 2 1 True True
          = (Inr ([1, 2, 3], Some P2P), GetValue ''digest'' # [StreamerRequestHash ''digest'',
         VerifyContentHash [1, 2, 3] Storage ''digest''])"
    by (rule resolve_overlay) (simp_all add: demo_failing_fetch)
  then show ?thesis
    by (simp add: get_hash_content_def set_value_def demo_failing_store_env_def)
qed

subsection \<open>The order of the sources\<close>

text \<open>
  Claim C5. \<open>get_hash_content\<close> tries the local store, then the peer overlay, then the
  distributed network, and stops at the first one that gives bytes. When the store
  holds the hash, the result carries \<open>source = DB\<close>, the store is unchanged and the one
  call made is the read of the store. When the store misses and the overlay gives bytes,
  the result carries \<open>source = P2P\<close> and the distributed network is not queried. When
  both miss and the distributed network gives bytes, the result carries
  \<open>source = IPFS\<close>. When every source gives nothing, the call fails with
  \<open>ContentCurrentlyUnavailable\<close>. In the second and the third case the result is
  returned after the write-through; the statement gives the outcome for both outcomes of
  that write, so that it covers every environment.
\<close>

theorem resolver_source_order:
  "(st h = Some c \<longrightarrow>
      get_hash_content env st h engine timeout tries use_network use_ipfs store_value
        = (Inr \<lparr>hash = h, source = Some DB, value_bytes = c\<rparr>, st, [GetValue h]))
   \<and> (st h = None \<and> use_network
        \<and> fetch_content_from_network env h engine timeout = (Inr (Some c), tn) \<longrightarrow>
      get_hash_content env st h engine timeout tries use_network use_ipfs store_value
        = (case (if store_value then set_value_error env h c else None) of
             None \<Rightarrow> (Inr \<lparr>hash = h, source = Some P2P, value_bytes = c\<rparr>,
                        if store_value then st(h \<mapsto> c) else st,
                        GetValue h # tn @ (if store_value then [SetValue h c] else []))
           | Some e \<Rightarrow> (Inl e, st, GetValue h # tn @ [SetValue h c])))
   \<and> (st h = None
        \<and> (use_network \<longrightarrow> fetch_content_from_network env h engine timeout = (Inr None, tn))
        \<and> ipfs_enabled env \<and> engine = IPFS \<and> use_ipfs
        \<and> get_ipfs_content env h timeout tries = Inr (Some c) \<longrightarrow>
      get_hash_content env st h engine timeout tries use_network use_ipfs store_value
        = (case (if store_value then set_value_error env h c else None) of
             None \<Rightarrow> (Inr \<lparr>hash = h, source = Some IPFS_src, value_bytes = c\<rparr>,
                        if store_value then st(h \<mapsto> c) else st,
                        GetValue h # (if use_network then tn else [])
                          @ [GetIpfsContent h timeout tries]
                          @ (if store_value then [SetValue h c] else []))
           | Some e \<Rightarrow> (Inl e, st, GetValue h # (if use_network then tn else [])
                          @ [GetIpfsContent h timeout tries, SetValue h c])))
   \<and> (st h = None
        \<and> (use_network \<longrightarrow> fst (fetch_content_from_network env h engine timeout) = Inr None)
        \<and> (ipfs_enabled env \<and> engine = IPFS \<and> use_ipfs
             \<longrightarrow> get_ipfs_content env h timeout tries = Inr None) \<longrightarrow>
      fst (get_hash_content env st h engine timeout tries use_network use_ipfs store_value)
        = Inl ContentCurrentlyUnavailable)"
proof (intro conjI impI)
  assume "st h = Some c"
  then have "resolve_content env st h engine timeout tries use_network use_ipfs
           = (Inr (c, Some DB), [GetValue h])"
    by (rule resolve_db)
  from get_hash_content_cache[OF this]
  show "get_hash_content env st h engine timeout tries use_network use_ipfs store_value
        = (Inr \<lparr>hash = h, source = Some DB, value_bytes = c\<rparr>, st, [GetValue h])"
    by simp
next
  assume a: "st h = None \<and> use_network
        \<and> fetch_content_from_network env h engine timeout = (Inr (Some c), tn)"
  then have "resolve_content env st h engine timeout tries use_network use_ipfs
           = (Inr (c, Some P2P), GetValue h # tn)"
    using resolve_overlay by blast
  from get_hash_content_cache[OF this]
  show "get_hash_content env st h engine timeout tries use_network use_ipfs store_value
        = (case (if store_value then set_value_error env h c else None) of
             None \<Rightarrow> (Inr \<lparr>hash = h, source = Some P2P, value_bytes = c\<rparr>,
                        if store_value then st(h \<mapsto> c) else st,
                        GetValue h # tn @ (if store_value then [SetValue h c] else []))
           | Some e \<Rightarrow> (Inl e, st, GetValue h # tn @ [SetValue h c]))"
    by (simp split: option.splits)
next
  assume a: "st h = None
        \<and> (use_network \<longrightarrow> fetch_content_from_network env h engine timeout = (Inr None, tn))
        \<and> ipfs_enabled env \<and> engine = IPFS \<and> use_ipfs
        \<and> get_ipfs_content env h timeout tries = Inr (Some c)"
  then have 1: "st h = None"
    and 2: "use_network \<longrightarrow> fetch_content_from_network env h engine timeout = (Inr None, tn)"
    and 3: "ipfs_enabled env" and 4: "engine = IPFS" and 5: "use_ipfs"
    and 6: "get_ipfs_content env h timeout tries = Inr (Some c)"
    by blast+
  have "resolve_content env st h engine timeout tries use_network use_ipfs
           = (Inr (c, Some IPFS_src),
              GetValue h # (if use_network then tn else []) @ [GetIpfsContent h timeout tries])"
    using resolve_ipfs [of st h use_network env engine timeout tn use_ipfs tries, OF 1 2 3 4 5]
    by (simp add: 6)
  from get_hash_content_cache[OF this]
  show "get_hash_content env st h engine timeout tries use_network use_ipfs store_value
        = (case (if store_value then set_value_error env h c else None) of
             None \<Rightarrow> (Inr \<lparr>hash = h, source = Some IPFS_src, value_bytes = c\<rparr>,
                        if store_value then st(h \<mapsto> c) else st,
                        GetValue h # (if use_network then tn else [])
                          @ [GetIpfsContent h timeout tries]
                          @ (if store_value then [SetValue h c] else []))
           | Some e \<Rightarrow> (Inl e, st, GetValue h # (if use_network then tn else [])
                          @ [GetIpfsContent h timeout tries, SetValue h c]))"
    by (simp split: option.splits)
next
  assume "st h = None
        \<and> (use_network \<longrightarrow> fst (fetch_content_from_network env h engine timeout) = Inr None)
        \<and> (ipfs_enabled env \<and> engine = IPFS \<and> use_ipfs
             \<longrightarrow> get_ipfs_content env h timeout tries = Inr None)"
  then have "fst (resolve_content env st h engine timeout tries use_network use_ipfs)
           = Inl ContentCurrentlyUnavailable"
    using resolve_unavailable by blast
  from get_hash_content_fst[OF this]
  show "fst (get_hash_content env st h engine timeout tries use_network use_ipfs store_value)
        = Inl ContentCurrentlyUnavailable" .
qed

theorem resolver_source_order_witness:
  "get_hash_content demo_storage_env [''QmExpected'' \<mapsto> [9]] ''QmExpected'' IPFS 2 1 True True True
     = (Inr \<lparr>hash = ''QmExpected'', source = Some DB, value_bytes = [9]\<rparr>,
        [''QmExpected'' \<mapsto> [9]], [GetValue ''QmExpected''])
   \<and> get_hash_content demo_p2p_env Map.empty ''digest'' Storage 2 1 True True False
     = (Inr \<lparr>hash = ''digest'', source = Some P2P, value_bytes = [1, 2, 3]\<rparr>,
        Map.empty, [GetValue ''digest'', StreamerRequestHash ''digest'',
         VerifyContentHash [1, 2, 3] Storage ''digest''])
   \<and> get_hash_content demo_storage_env Map.empty ''QmExpected'' IPFS 2 1 True True False
     = (Inr \<lparr>hash = ''QmExpected'', source = Some IPFS_src, value_bytes = [1, 2, 3]\<rparr>,
        Map.empty,
        [GetValue ''QmExpected'', StreamerRequestHash ''QmExpected'',
         HttpRequestHash ''QmExpected'' 2, GetIpfsContent ''QmExpected'' 2 1])
   \<and> fst (get_hash_content demo_silent_env Map.empty ''QmExpected'' IPFS 2 1 True True False)
     = Inl ContentCurrentlyUnavailable"
proof -
  have a: "get_hash_content demo_storage_env [''QmExpected'' \<mapsto> [9]] ''QmExpected'' IPFS 2 1
             True True True
     = (Inr \<lparr>hash = ''QmExpected'', source = Some DB, value_bytes = [9]\<rparr>,
        [''QmExpected'' \<mapsto> [9]], [GetValue ''QmExpected''])"
    using resolver_source_order
      [of "[''QmExpected'' \<mapsto> [9]]" "''QmExpected''" "[9]" demo_storage_env IPFS 2 1 True True True]
    by simp
  have b: "get_hash_content demo_p2p_env Map.empty ''digest'' Storage 2 1 True True False
     = (Inr \<lparr>hash = ''digest'', source = Some P2P, value_bytes = [1, 2, 3]\<rparr>,
        Map.empty, [GetValue ''digest'', StreamerRequestHash ''digest'',
         VerifyContentHash [1, 2, 3] Storage ''digest''])"
    using resolver_source_order
      [of Map.empty "''digest''" "[1, 2, 3]" demo_p2p_env Storage 2 1 True True False
          "[StreamerRequestHash ''digest'', VerifyContentHash [1, 2, 3] Storage ''digest'']"]
      demo_p2p_fetch
    by simp
  have c: "get_hash_content demo_storage_env Map.empty ''QmExpected'' IPFS 2 1 True True False
     = (Inr \<lparr>hash = ''QmExpected'', source = Some IPFS_src, value_bytes = [1, 2, 3]\<rparr>,
        Map.empty,
        [GetValue ''QmExpected'', StreamerRequestHash ''QmExpected'',
         HttpRequestHash ''QmExpected'' 2, GetIpfsContent ''QmExpected'' 2 1])"
    using resolver_source_order
      [of Map.empty "''QmExpected''" "[1, 2, 3]" demo_storage_env IPFS 2 1 True True False
          "[StreamerRequestHash ''QmExpected'', HttpRequestHash ''QmExpected'' 2]"]
      demo_storage_fetch
    by (simp add: demo_storage_env_def)
  have d: "fst (get_hash_content demo_silent_env Map.empty ''QmExpected'' IPFS 2 1 True True False)
     = Inl ContentCurrentlyUnavailable"
    using resolver_source_order
      [of Map.empty "''QmExpected''" "[]" demo_silent_env IPFS 2 1 True True False "[]"]
      demo_silent_fetch
    by (simp add: demo_silent_env_def demo_storage_env_def)
  show ?thesis by (intro conjI) (rule a b c d)+
qed

subsection \<open>Write-through\<close>

text \<open>
  Claim C7. After a successful \<open>get_hash_content\<close> for a hash with \<open>store_value\<close> true
  whose result has a source other than the local store, the store holds the returned
  bytes under that hash, and a following \<open>get_hash_content\<close> for the same hash, whatever
  its other arguments, returns the same bytes with \<open>source = DB\<close> after the one read of
  the store.
\<close>

theorem write_through_then_db:
  assumes "get_hash_content env st h engine timeout tries use_network use_ipfs True
             = (Inr r, st', t)"
    and "source r \<noteq> Some DB"
  shows "st' h = Some (value_bytes r)
       \<and> get_hash_content env2 st' h engine2 timeout2 tries2 use_network2 use_ipfs2 store_value2
           = (Inr \<lparr>hash = h, source = Some DB, value_bytes = value_bytes r\<rparr>, st', [GetValue h])"
proof -
  obtain c src tr where res:
    "resolve_content env st h engine timeout tries use_network use_ipfs = (Inr (c, src), tr)"
    using assms(1)
    by (cases "resolve_content env st h engine timeout tries use_network use_ipfs")
       (auto simp: get_hash_content_def split: sum.splits)
  from assms get_hash_content_cache[OF res, of True]
  have "st' h = Some (value_bytes r)"
    by (auto split: if_splits option.splits)
  then have st'h: "st' h = Some (value_bytes r)" .
  have "resolve_content env2 st' h engine2 timeout2 tries2 use_network2 use_ipfs2
           = (Inr (value_bytes r, Some DB), [GetValue h])"
    using st'h by (rule resolve_db)
  from get_hash_content_cache[OF this]
  have "get_hash_content env2 st' h engine2 timeout2 tries2 use_network2 use_ipfs2 store_value2
           = (Inr \<lparr>hash = h, source = Some DB, value_bytes = value_bytes r\<rparr>, st', [GetValue h])"
    by simp
  with st'h show ?thesis by simp
qed

theorem write_through_then_db_witness:
  "get_hash_content demo_p2p_env Map.empty ''digest'' Storage 2 1 True True True
     = (Inr \<lparr>hash = ''digest'', source = Some P2P, value_bytes = [1, 2, 3]\<rparr>,
        [''digest'' \<mapsto> [1, 2, 3]],
        [GetValue ''digest'', StreamerRequestHash ''digest'',
         VerifyContentHash [1, 2, 3] Storage ''digest'', SetValue ''digest'' [1, 2, 3]])
   \<and> get_hash_content demo_p2p_env [''digest'' \<mapsto> [1, 2, 3]] ''digest'' Storage 2 1 True True True
     = (Inr \<lparr>hash = ''digest'', source = Some DB, value_bytes = [1, 2, 3]\<rparr>,
        [''digest'' \<mapsto> [1, 2, 3]], [GetValue ''digest''])"
  using write_through_then_db [OF demo_p2p_get, of demo_p2p_env Storage 2 1 True True True]
    demo_p2p_get
  by simp

section \<open>Pending work pipeline: batches, expansion and stuck records\<close>

subsection \<open>Auxiliary facts\<close>

lemma join_messages_gathered:
  "sw_gathered (snd (join_pending_message_tasks inc tasks st)) = sw_gathered (snd st) @ [tasks]"
  by (simp add: join_pending_message_tasks_def split: prod.splits)

lemma retry_loop_gathered:
  "map length (sw_gathered (snd (retry_messages_loop inc recs i tasks st)))
     = map length (sw_gathered (snd st)) @ batch_sizes 200 (length recs) i (length tasks)"
  by (induction recs arbitrary: i tasks st) (simp_all add: join_messages_gathered)

lemma join_txs_gathered:
  "sw_gathered (snd (join_pending_txs_tasks gcm tasks st)) = sw_gathered (snd st) @ [tasks]"
  by (simp add: join_pending_txs_tasks_def split: prod.splits)

lemma txs_loop_gathered:
  "map length (sw_gathered (snd (handle_txs_loop gcm recs i tasks st)))
     = map length (sw_gathered (snd st)) @ batch_sizes 100 (length recs) i (length tasks)"
  by (induction recs arbitrary: i tasks st) (simp_all add: join_txs_gathered)

lemma batch_sizes_200: "batch_sizes 200 1000 0 0 = [201, 201, 201, 201, 196]"
  by code_simp

lemma batch_sizes_100:
  "batch_sizes 100 1000 0 0 = [101, 101, 101, 101, 101, 101, 101, 101, 101, 91]"
  by code_simp

lemma seen_ids_subscript_unknown:
  assumes "dom seen = {''NULS'', ''ETH'', ''BNB''}"
    and "key \<notin> {Some ''NULS'', Some ''ETH'', Some ''BNB''}"
  shows "\<exists>k. seen_ids_subscript seen key = Inl (KeyError k)"
proof (cases key)
  case None
  then show ?thesis by (simp add: seen_ids_subscript_def)
next
  case (Some c)
  with assms(2) have "c \<notin> dom seen" unfolding assms(1) by auto
  then have "seen c = None" by auto
  with Some show ?thesis by (simp add: seen_ids_subscript_def)
qed

lemma handle_unknown_chain:
  assumes "dom seen = {''NULS'', ''ETH'', ''BNB''}"
    and "src_chain_name (pm_source (snd q)) \<notin> {Some ''NULS'', Some ''ETH'', Some ''BNB''}"
  shows "\<exists>k. handle_pending_message inc q seen acts = (Inl (KeyError k), seen, acts)"
proof -
  from seen_ids_subscript_unknown [OF assms] obtain k where
    "seen_ids_subscript seen (src_chain_name (pm_source (snd q))) = Inl (KeyError k)" by blast
  then show ?thesis by (simp add: handle_pending_message_def)
qed

lemma handle_dom:
  "dom (fst (snd (handle_pending_message inc q seen acts))) = dom seen"
  by (auto simp: handle_pending_message_def seen_ids_subscript_def Let_def
      split: sum.splits option.splits prod.splits)

lemma handle_actions:
  "snd (snd (handle_pending_message inc q seen acts)) = acts
   \<or> (snd (snd (handle_pending_message inc q seen acts)) = acts @ [DeleteOne (fst q)]
      \<and> (\<exists>ids. seen_ids_subscript seen (src_chain_name (pm_source (snd q))) = Inr ids))"
  by (auto simp: handle_pending_message_def Let_def split: sum.splits prod.splits)

lemma gather_invariant:
  assumes "dom seen = {''NULS'', ''ETH'', ''BNB''}"
    and "set acts \<subseteq> DeleteOne ` (- {i})"
    and "\<forall>q \<in> set tasks. fst q = i \<longrightarrow>
           src_chain_name (pm_source (snd q)) \<notin> {Some ''NULS'', Some ''ETH'', Some ''BNB''}"
  shows "dom (fst (gather_pending_messages inc tasks seen acts)) = {''NULS'', ''ETH'', ''BNB''}
       \<and> set (snd (gather_pending_messages inc tasks seen acts)) \<subseteq> DeleteOne ` (- {i})"
  using assms
proof (induction tasks arbitrary: seen acts)
  case Nil
  then show ?case by simp
next
  case (Cons q tasks)
  obtain r seen' acts' where h: "handle_pending_message inc q seen acts = (r, seen', acts')"
    by (cases "handle_pending_message inc q seen acts") auto
  have d: "dom seen' = {''NULS'', ''ETH'', ''BNB''}"
    using handle_dom [of inc q seen acts] h Cons.prems(1) by simp
  have a: "set acts' \<subseteq> DeleteOne ` (- {i})"
  proof (cases "fst q = i")
    case True
    with Cons.prems(3) have
      "src_chain_name (pm_source (snd q)) \<notin> {Some ''NULS'', Some ''ETH'', Some ''BNB''}"
      by simp
    from handle_unknown_chain [OF Cons.prems(1) this, of inc acts] h have "acts' = acts" by auto
    with Cons.prems(2) show ?thesis by simp
  next
    case False
    from handle_actions [of inc q seen acts] h
    have "acts' = acts \<or> acts' = acts @ [DeleteOne (fst q)]" by auto
    with Cons.prems(2) False show ?thesis by auto
  qed
  have "\<forall>q \<in> set tasks. fst q = i \<longrightarrow>
           src_chain_name (pm_source (snd q)) \<notin> {Some ''NULS'', Some ''ETH'', Some ''BNB''}"
    using Cons.prems(3) by simp
  from Cons.IH [OF d a this] show ?case by (simp add: h)
qed

lemma delete_one_keeps:
  assumes "p \<in> set coll" and "j \<noteq> fst p"
  shows "p \<in> set (delete_one j coll)"
  using assms by (induction coll) auto

lemma delete_one_subset: "set (delete_one j coll) \<subseteq> set coll"
  by (induction coll) auto

lemma delete_one_distinct:
  "distinct (map fst coll) \<Longrightarrow> distinct (map fst (delete_one j coll))"
proof (induction coll)
  case Nil
  then show ?case by simp
next
  case (Cons x coll)
  then show ?case using delete_one_subset [of j coll] by auto
qed

lemma bulk_write_deletes:
  assumes "set acts \<subseteq> DeleteOne ` (- {fst p})" and "p \<in> set coll"
    and "distinct (map fst coll)"
  shows "p \<in> set (bulk_write coll acts) \<and> distinct (map fst (bulk_write coll acts))"
  using assms
proof (induction acts arbitrary: coll)
  case Nil
  then show ?case by (simp add: bulk_write_def)
next
  case (Cons a acts)
  from Cons.prems(1) obtain j where j: "a = DeleteOne j" "j \<noteq> fst p" by auto
  have "p \<in> set (delete_one j coll)" using delete_one_keeps [OF Cons.prems(2) j(2)] .
  moreover have "distinct (map fst (delete_one j coll))"
    using delete_one_distinct [OF Cons.prems(3)] .
  moreover have "set acts \<subseteq> DeleteOne ` (- {fst p})" using Cons.prems(1) by simp
  ultimately have "p \<in> set (bulk_write (delete_one j coll) acts)
       \<and> distinct (map fst (bulk_write (delete_one j coll) acts))"
    using Cons.IH by blast
  then show ?case by (simp add: bulk_write_def j(1))
qed

lemma join_invariant:
  assumes "sweep_ok p st"
    and "\<forall>q \<in> set tasks. fst q = fst p \<longrightarrow>
           src_chain_name (pm_source (snd q)) \<notin> {Some ''NULS'', Some ''ETH'', Some ''BNB''}"
  shows "sweep_ok p (join_pending_message_tasks inc tasks st)"
proof -
  obtain seen' acts' where
    g: "gather_pending_messages inc tasks (fst st) (sw_actions (snd st)) = (seen', acts')"
    by (cases "gather_pending_messages inc tasks (fst st) (sw_actions (snd st))") auto
  from assms(1) have d: "dom (fst st) = {''NULS'', ''ETH'', ''BNB''}"
    and a: "set (sw_actions (snd st)) \<subseteq> DeleteOne ` (- {fst p})"
    and c: "p \<in> set (sw_coll (snd st))" and dc: "distinct (map fst (sw_coll (snd st)))"
    by (simp_all add: sweep_ok_def)
  from gather_invariant [OF d a assms(2), of inc] g
  have d': "dom seen' = {''NULS'', ''ETH'', ''BNB''}"
    and a': "set acts' \<subseteq> DeleteOne ` (- {fst p})" by simp_all
  from bulk_write_deletes [OF a' c dc]
  show ?thesis
    using d' c dc by (simp add: join_pending_message_tasks_def g sweep_ok_def)
qed

lemma loop_invariant:
  assumes "sweep_ok p st"
    and "\<forall>q \<in> set recs \<union> set tasks. fst q = fst p \<longrightarrow>
           src_chain_name (pm_source (snd q)) \<notin> {Some ''NULS'', Some ''ETH'', Some ''BNB''}"
  shows "sweep_ok p (retry_messages_loop inc recs i tasks st)"
  using assms
proof (induction recs arbitrary: i tasks st)
  case Nil
  then show ?case by (simp add: join_invariant)
next
  case (Cons q recs)
  show ?case
  proof (cases "i + 1 > 200")
    case True
    have "sweep_ok p (join_pending_message_tasks inc (tasks @ [q]) st)"
      using Cons.prems by (intro join_invariant) auto
    then have "sweep_ok p (retry_messages_loop inc recs 0 []
                 (join_pending_message_tasks inc (tasks @ [q]) st))"
      using Cons.prems(2) by (intro Cons.IH) auto
    with True show ?thesis by simp
  next
    case False
    have "sweep_ok p (retry_messages_loop inc recs (i + 1) (tasks @ [q]) st)"
      using Cons.prems by (intro Cons.IH) auto
    with False show ?thesis by simp
  qed
qed

lemma job_invariant:
  assumes "src_chain_name (pm_source (snd p)) \<notin> {Some ''NULS'', Some ''ETH'', Some ''BNB''}"
    and "p \<in> set coll" and "distinct (map fst coll)"
  shows "p \<in> set (sw_coll (retry_messages_job inc coll))
       \<and> distinct (map fst (sw_coll (retry_messages_job inc coll)))"
proof -
  have same: "q = p" if "q \<in> set coll" "fst q = fst p" for q
    using that assms(2,3) by (meson eq_key_imp_eq_value prod.collapse prod_eqI distinct_map inj_onD)
  have init: "sweep_ok p (initial_seen_ids, \<lparr>sw_actions = [], sw_coll = coll, sw_gathered = []\<rparr>)"
    using assms(2,3) by (auto simp: sweep_ok_def initial_seen_ids_def)
  have "\<forall>q \<in> set (find_limit 1000 coll) \<union> set []. fst q = fst p \<longrightarrow>
           src_chain_name (pm_source (snd q)) \<notin> {Some ''NULS'', Some ''ETH'', Some ''BNB''}"
    using same assms(1) by (auto simp: find_limit_def dest: in_set_takeD)
  from loop_invariant [OF init this, of inc 0]
  show ?thesis by (simp add: retry_messages_job_def sweep_ok_def)
qed


lemma demo_sweep:
  "sw_coll (retry_messages_job demo_incoming
       [(1, demo_pending_message), (7, demo_unknown_chain_message)])
     = [(7, demo_unknown_chain_message)]"
  by (simp add: retry_messages_job_def find_limit_def join_pending_message_tasks_def
      handle_pending_message_def seen_ids_subscript_def initial_seen_ids_def
      demo_pending_message_def demo_unknown_chain_message_def demo_incoming_def
      bulk_write_def)

subsection \<open>Tasks in flight\<close>

text \<open>
  Claim C4. The claim bounds the handler tasks in flight together by 200 for
  \<open>retry_messages_job\<close> and by 100 for \<open>handle_txs_job\<close>. The loops count a record,
  append its task, and drain when the counter is greater than the bound, so a batch is
  drained when it holds one task more than the bound. On a queue of 1000 records the
  batches handed to \<open>gather\<close> have 201, 201, 201, 201 and 196 tasks in the pending-message
  worker, and nine times 101 and then 91 tasks in the pending-tx worker: the code runs
  201 and 101 tasks together, one more than the claim allows.
\<close>

theorem sweep_batches_of_1000_records:
  "map length (sw_gathered (retry_messages_job demo_incoming demo_pending_messages))
     = [201, 201, 201, 201, 196]
   \<and> max_in_flight (sw_gathered (retry_messages_job demo_incoming demo_pending_messages)) = 201
   \<and> map length (sw_gathered (snd (handle_txs_job demo_chaindata [] demo_pending_txs)))
     = [101, 101, 101, 101, 101, 101, 101, 101, 101, 91]
   \<and> max_in_flight (sw_gathered (snd (handle_txs_job demo_chaindata [] demo_pending_txs))) = 101"
proof -
  have m: "map length (sw_gathered (retry_messages_job demo_incoming demo_pending_messages))
     = [201, 201, 201, 201, 196]"
    by (simp add: retry_messages_job_def retry_loop_gathered find_limit_def
        demo_pending_messages_def batch_sizes_200)
  have t: "map length (sw_gathered (snd (handle_txs_job demo_chaindata [] demo_pending_txs)))
     = [101, 101, 101, 101, 101, 101, 101, 101, 101, 91]"
    by (simp add: handle_txs_job_def txs_loop_gathered find_limit_def
        demo_pending_txs_def batch_sizes_100)
  show ?thesis
    unfolding max_in_flight_def m t by simp
qed

subsection \<open>Expansion of a pending tx\<close>



subsection \<open>Records of an unknown chain\<close>

text \<open>
  Claim C10. For every pending-message record whose \<open>source.chain_name\<close> is not one of
  \<open>NULS\<close>, \<open>ETH\<close>, \<open>BNB\<close>, the record without chain name included,
  \<open>handle_pending_message\<close> raises \<open>KeyError\<close> on the table of seen ids before
  \<open>incoming\<close> is called, leaving the table and the action list as they were, whatever
  ids the table holds under its three keys at that moment. The
  exception is dropped at the drain, no delete of the record is ever written, and the
  record is still in the collection after one sweep and after any number of sweeps,
  whatever \<open>incoming\<close> does in each of them. The ids of the collection are distinct, as
  the \<open>_id\<close> of a document is.
\<close>

theorem unknown_chain_stays_pending:
  assumes "src_chain_name (pm_source (snd p)) \<notin> {Some ''NULS'', Some ''ETH'', Some ''BNB''}"
    and "p \<in> set coll" and "distinct (map fst coll)"
    and "dom seen = dom initial_seen_ids"
  shows "(\<exists>k. handle_pending_message incoming p seen actions
               = (Inl (KeyError k), seen, actions))
       \<and> p \<in> set (sw_coll (retry_messages_job incoming coll))
       \<and> p \<in> set (retry_messages_task incomings coll)"
proof (intro conjI)
  have "dom seen = {''NULS'', ''ETH'', ''BNB''}"
    unfolding assms(4) by (auto simp: initial_seen_ids_def)
  from handle_unknown_chain [OF this assms(1)]
  show "\<exists>k. handle_pending_message incoming p seen actions
               = (Inl (KeyError k), seen, actions)" .
  show "p \<in> set (sw_coll (retry_messages_job incoming coll))"
    using job_invariant [OF assms(1-3)] by simp
  show "p \<in> set (retry_messages_task incomings coll)"
    using assms(2,3)
  proof (induction incomings arbitrary: coll)
    case Nil
    then show ?case by simp
  next
    case (Cons inc incomings)
    from job_invariant [OF assms(1) Cons.prems, of inc]
    show ?case using Cons.IH by simp
  qed
qed

theorem unknown_chain_stays_pending_witness:
  "src_chain_name (pm_source (snd (7::nat, demo_unknown_chain_message)))
     \<notin> {Some ''NULS'', Some ''ETH'', Some ''BNB''}
   \<and> distinct (map fst [(1::nat, demo_pending_message), (7, demo_unknown_chain_message)])
   \<and> handle_pending_message demo_incoming (7, demo_unknown_chain_message) initial_seen_ids []
       = (Inl (KeyError ''XTZ''), initial_seen_ids, [])
   \<and> sw_coll (retry_messages_job demo_incoming
         [(1, demo_pending_message), (7, demo_unknown_chain_message)])
       = [(7, demo_unknown_chain_message)]
   \<and> (7, demo_unknown_chain_message)
       \<in> set (retry_messages_task [demo_incoming, demo_incoming, demo_incoming]
                [(1, demo_pending_message), (7, demo_unknown_chain_message)])"
proof -
  have a: "src_chain_name (pm_source (snd (7::nat, demo_unknown_chain_message)))
     \<notin> {Some ''NULS'', Some ''ETH'', Some ''BNB''}"
    by (simp add: demo_unknown_chain_message_def)
  have b: "(7, demo_unknown_chain_message)
             \<in> set [(1::nat, demo_pending_message), (7, demo_unknown_chain_message)]"
    by simp
  have c: "distinct (map fst [(1::nat, demo_pending_message), (7, demo_unknown_chain_message)])"
    by simp
  have h: "handle_pending_message demo_incoming (7, demo_unknown_chain_message) initial_seen_ids []
       = (Inl (KeyError ''XTZ''), initial_seen_ids, [])"
    by (simp add: handle_pending_message_def seen_ids_subscript_def initial_seen_ids_def
        demo_unknown_chain_message_def)
  have d: "dom initial_seen_ids = dom initial_seen_ids" ..
  from unknown_chain_stays_pending [OF a b c d, of demo_incoming "[]"
      "[demo_incoming, demo_incoming, demo_incoming]"]
  have t: "(7, demo_unknown_chain_message)
       \<in> set (retry_messages_task [demo_incoming, demo_incoming, demo_incoming]
                [(1, demo_pending_message), (7, demo_unknown_chain_message)])"
    by blast
  show ?thesis by (intro conjI) (rule a c h demo_sweep t)+
qed

end
